(* ===== verification/Prelude.thy ===== *)
theory Prelude
  imports Main "HOL-Library.Sublist" "HOL-Library.Multiset" "HOL-Library.Word"
begin

text \<open>
  Shared vocabulary of the development: runs of a labelled step relation and the locale of
  inductive invariants, the FIFO interface that models \<open>std::queue\<close>, the operations of
  \<open>std::string\<close> that the sources call (\<open>find\<close>, \<open>rfind\<close>, \<open>substr\<close>, \<open>find_first_not_of\<close>),
  and the decimal conversions \<open>std::to_string\<close>, \<open>std::stoi\<close> and \<open>std::stoll\<close>.
  A \<open>std::string\<close> is a \<^typ>\<open>string\<close> of bytes; \<open>std::string::npos\<close> is \<^term>\<open>None\<close>.
\<close>

section \<open>Fact collections and types\<close>

named_theorems channel_simps \<open>unfolding rules for the channel operations\<close>
named_theorems sched_simps \<open>unfolding rules for the scheduler operations\<close>
named_theorems str_simps \<open>rules on the std::string operations\<close>

type_synonym tid = nat
type_synonym u8 = "8 word"
type_synonym u32 = "32 word"
type_synonym u64 = "64 word"

section \<open>Runs of a labelled step relation\<close>

inductive run :: "('s \<Rightarrow> 'e \<Rightarrow> 's \<Rightarrow> bool) \<Rightarrow> 's \<Rightarrow> 'e list \<Rightarrow> 's \<Rightarrow> bool"
  for step :: "'s \<Rightarrow> 'e \<Rightarrow> 's \<Rightarrow> bool" where
  run_Nil: "run step s [] s"
| run_Cons: "step s e t \<Longrightarrow> run step t es u \<Longrightarrow> run step s (e # es) u"

inductive_cases run_NilE [elim!]: "run step s [] t"
inductive_cases run_ConsE [elim!]: "run step s (e # es) t"

lemma run_append: "run step s es t \<Longrightarrow> run step t fs u \<Longrightarrow> run step s (es @ fs) u"
  by (induction rule: run.induct) (auto intro: run.intros)

lemma run_snoc: "run step s es t \<Longrightarrow> step t e u \<Longrightarrow> run step s (es @ [e]) u"
  by (rule run_append) (auto intro: run.intros)

text \<open>
  A property kept by every step holds at the end of every run. Every concurrent component
  of the development interprets this locale with its own step relation and invariant.
\<close>

locale invariant_system =
  fixes step :: "'s \<Rightarrow> 'e \<Rightarrow> 's \<Rightarrow> bool"
    and inv :: "'s \<Rightarrow> bool"
  assumes inv_step: "inv s \<Longrightarrow> step s e t \<Longrightarrow> inv t"
begin

lemma inv_run: "run step s es t \<Longrightarrow> inv s \<Longrightarrow> inv t"
  by (induction rule: run.induct) (auto intro: inv_step)

end

text \<open>
  A trace property: a relation between the events so far and the state, kept when the
  trace grows by one step.
\<close>

locale history_system = invariant_system +
  fixes hist :: "'b list \<Rightarrow> 'a \<Rightarrow> bool"
  assumes hist_step: "inv s \<Longrightarrow> hist es s \<Longrightarrow> step s e t \<Longrightarrow> hist (es @ [e]) t"
begin

lemma hist_run:
  "run step s es t \<Longrightarrow> inv s \<Longrightarrow> hist fs s \<Longrightarrow> hist (fs @ es) t"
proof (induction arbitrary: fs rule: run.induct)
  case (run_Nil s)
  then show ?case by simp
next
  case (run_Cons s e t es u)
  then have "hist ((fs @ [e]) @ es) u"
    by (blast intro: inv_step hist_step)
  then show ?case by simp
qed

end

text \<open>
  Work that drains: some events belong to the system itself, each of them lowers a measure, and as
  long as the measure is positive one of them can happen.
\<close>

locale draining_system = invariant_system +
  fixes internal :: "'b \<Rightarrow> bool"
    and backlog :: "'a \<Rightarrow> nat"
  assumes internal_decreases: "inv s \<Longrightarrow> step s e t \<Longrightarrow> internal e \<Longrightarrow> backlog t < backlog s"
    and internal_enabled: "inv s \<Longrightarrow> 0 < backlog s \<Longrightarrow> \<exists>e t. internal e \<and> step s e t"
begin

lemma internal_run_bounded:
  "run step s es t \<Longrightarrow> inv s \<Longrightarrow> \<forall>e \<in> set es. internal e \<Longrightarrow> length es + backlog t \<le> backlog s"
proof (induction rule: run.induct)
  case (run_Cons s e t es u)
  then have "backlog t < backlog s" "inv t" by (auto intro: internal_decreases inv_step)
  with run_Cons show ?case by auto
qed simp

lemma drains:
  "inv s \<Longrightarrow> \<exists>es t. run step s es t \<and> (\<forall>e \<in> set es. internal e) \<and> backlog t = 0"
proof (induction "backlog s" arbitrary: s rule: less_induct)
  case less
  show ?case
  proof (cases "backlog s = 0")
    case True
    then show ?thesis by (intro exI [of _ "[]"] exI [of _ s]) (simp add: run_Nil)
  next
    case False
    then obtain e t where e: "internal e" "step s e t" using internal_enabled [OF less.prems] by auto
    then obtain es u where es: "run step t es u" "\<forall>e \<in> set es. internal e" "backlog u = 0"
      using less.hyps [of t] internal_decreases [OF less.prems] inv_step [OF less.prems] by blast
    have "run step s (e # es) u" using run_Cons [OF e(2) es(1)] .
    with e(1) es(2,3) show ?thesis by (intro exI [of _ "e # es"] exI [of _ u]) simp
  qed
qed

end

text \<open>
  Forward simulation: under the invariant every step of the code is, through the abstraction
  function \<open>absn\<close>, a step of the specification with the same event, so every run of the code is a
  run of the specification.
\<close>

locale simulation = invariant_system +
  fixes spec :: "'s \<Rightarrow> 'b \<Rightarrow> 's \<Rightarrow> bool"
    and absn :: "'a \<Rightarrow> 's"
  assumes sim_step: "inv s \<Longrightarrow> step s e t \<Longrightarrow> spec (absn s) e (absn t)"
begin

lemma sim_run: "run step s es t \<Longrightarrow> inv s \<Longrightarrow> run spec (absn s) es (absn t)"
  by (induction rule: run.induct) (auto intro: run.intros inv_step sim_step)

end

section \<open>The FIFO interface of std::queue\<close>

locale fifo =
  fixes contents :: "'q \<Rightarrow> 'a list"
    and push :: "'a \<Rightarrow> 'q \<Rightarrow> 'q"
    and pop :: "'q \<Rightarrow> ('a \<times> 'q) option"
  assumes push_contents: "contents (push x q) = contents q @ [x]"
    and pop_None: "pop q = None \<longleftrightarrow> contents q = []"
    and pop_Some: "pop q = Some (x, q') \<Longrightarrow> contents q = x # contents q'"
begin

lemma pushes_contents: "contents (fold push xs q) = contents q @ xs"
  by (induction xs arbitrary: q) (simp_all add: push_contents)

lemma pop_after_push:
  "contents q = [] \<Longrightarrow> \<exists>q'. pop (push x q) = Some (x, q') \<and> contents q' = []"
  using pop_None [of "push x q"] pop_Some [of "push x q"] push_contents [of x q]
  by (cases "pop (push x q)") auto

end

definition queue_push :: "'a \<Rightarrow> 'a list \<Rightarrow> 'a list" where
  "queue_push x q = q @ [x]"

fun queue_pop :: "'a list \<Rightarrow> ('a \<times> 'a list) option" where
  "queue_pop [] = None"
| "queue_pop (x # q) = Some (x, q)"

interpretation std_queue: fifo "\<lambda>q. q" queue_push queue_pop
proof unfold_locales
  fix q :: "'a list"
  show "queue_pop q = None \<longleftrightarrow> q = []" by (cases q) auto
next
  fix q q' :: "'a list" and x
  show "queue_pop q = Some (x, q') \<Longrightarrow> q = x # q'" by (cases q) auto
qed (simp add: queue_push_def)

section \<open>std::string\<close>

text \<open>\<open>s.find(pat)\<close>: the least position at which \<open>pat\<close> occurs.\<close>

fun str_find :: "string \<Rightarrow> string \<Rightarrow> nat option" where
  "str_find pat [] = (if pat = [] then Some 0 else None)"
| "str_find pat (c # s) =
     (if prefix pat (c # s) then Some 0 else map_option Suc (str_find pat s))"

definition str_find_from :: "string \<Rightarrow> string \<Rightarrow> nat \<Rightarrow> nat option" where
  "str_find_from pat s pos =
     (if pos \<le> length s then map_option (\<lambda>i. pos + i) (str_find pat (drop pos s)) else None)"

definition str_contains :: "string \<Rightarrow> string \<Rightarrow> bool" where
  "str_contains pat s \<longleftrightarrow> str_find pat s \<noteq> None"

text \<open>\<open>s.rfind(c)\<close> for one character: its last position.\<close>

fun str_rfind_char :: "char \<Rightarrow> string \<Rightarrow> nat option" where
  "str_rfind_char c [] = None"
| "str_rfind_char c (d # s) =
     (case str_rfind_char c s of
        Some i \<Rightarrow> Some (Suc i)
      | None \<Rightarrow> if c = d then Some 0 else None)"

text \<open>\<open>s.substr(pos, n)\<close> for \<open>pos \<le> s.size()\<close>.\<close>

definition substr :: "string \<Rightarrow> nat \<Rightarrow> nat \<Rightarrow> string" where
  "substr s pos n = take n (drop pos s)"

lemma str_find_Some:
  "str_find pat s = Some i \<Longrightarrow> i + length pat \<le> length s \<and> take (length pat) (drop i s) = pat"
proof (induction pat s arbitrary: i rule: str_find.induct)
  case (1 pat)
  then show ?case by (auto split: if_splits)
next
  case (2 pat c s)
  show ?case
  proof (cases "prefix pat (c # s)")
    case True
    then have "length pat \<le> length (c # s)" by (rule prefix_length_le)
    with True "2.prems" show ?thesis by (auto simp: prefix_def)
  next
    case False
    with "2.prems" obtain j where "str_find pat s = Some j" "i = Suc j" by auto
    with "2.IH" [OF False] show ?thesis by simp
  qed
qed

lemma str_find_split:
  assumes "str_find pat s = Some i"
  shows "s = take i s @ pat @ drop (i + length pat) s"
proof -
  from str_find_Some [OF assms] have "pat = take (length pat) (drop i s)" by simp
  then have "pat @ drop (i + length pat) s = drop i s"
    by (metis append_take_drop_id drop_drop add.commute)
  then show ?thesis by simp
qed

lemma str_find_least:
  "str_find pat s = Some i \<Longrightarrow> j < i \<Longrightarrow> \<not> prefix pat (drop j s)"
proof (induction pat s arbitrary: i j rule: str_find.induct)
  case (1 pat)
  then show ?case by (auto split: if_splits)
next
  case (2 pat c s)
  show ?case
  proof (cases "prefix pat (c # s)")
    case True
    with "2.prems" show ?thesis by simp
  next
    case False
    with "2.prems" obtain k where "str_find pat s = Some k" "i = Suc k" by auto
    with False "2.IH" [OF False] "2.prems"(2) show ?thesis by (cases j) auto
  qed
qed

lemma str_find_None: "str_find pat s = None \<longleftrightarrow> (\<forall>j \<le> length s. \<not> prefix pat (drop j s))"
proof (induction pat s rule: str_find.induct)
  case (1 pat)
  then show ?case by (auto simp: prefix_def)
next
  case (2 pat c s)
  show ?case
  proof (cases "prefix pat (c # s)")
    case True
    then show ?thesis by force
  next
    case False
    have "(\<forall>j \<le> length (c # s). P (drop j (c # s)))
        \<longleftrightarrow> P (c # s) \<and> (\<forall>j \<le> length s. P (drop j s))" for P
    proof (intro iffI conjI allI impI; (elim conjE)?)
      fix j assume "P (c # s)" and all: "\<forall>j \<le> length s. P (drop j s)" and "j \<le> length (c # s)"
      then show "P (drop j (c # s))" by (cases j) auto
    next
      assume all: "\<forall>j \<le> length (c # s). P (drop j (c # s))"
      from spec [OF all, of 0] show "P (c # s)" by simp
      fix j assume "j \<le> length s"
      with spec [OF all, of "Suc j"] show "P (drop j s)" by simp
    qed
    from this [of "\<lambda>x. \<not> prefix pat x"] False "2.IH" [OF False] show ?thesis by simp
  qed
qed

lemma str_contains_iff: "str_contains pat s \<longleftrightarrow> sublist pat s"
proof
  assume "str_contains pat s"
  then obtain i where "str_find pat s = Some i" by (auto simp: str_contains_def)
  from str_find_split [OF this] show "sublist pat s"
    unfolding sublist_def by blast
next
  assume "sublist pat s"
  then obtain ps ss where s: "s = ps @ pat @ ss" by (auto simp: sublist_def)
  then have "length ps \<le> length s \<and> prefix pat (drop (length ps) s)" by simp
  then show "str_contains pat s" unfolding str_contains_def using str_find_None by blast
qed

lemma str_contains_trans: "str_contains a b \<Longrightarrow> str_contains b s \<Longrightarrow> str_contains a s"
  unfolding str_contains_iff by (rule sublist_order.order_trans)

lemma prefix_str_contains: "prefix pat s \<Longrightarrow> str_contains pat s"
  by (simp add: str_contains_iff)

lemma str_rfind_char_Some:
  "str_rfind_char c s = Some i \<Longrightarrow> i < length s \<and> s ! i = c \<and> c \<notin> set (drop (Suc i) s)"
proof (induction s arbitrary: i)
  case Nil
  then show ?case by simp
next
  case (Cons d s)
  show ?case
  proof (cases "str_rfind_char c s")
    case None
    moreover from None have "c \<notin> set s"
      by (induction s) (auto split: option.splits if_splits)
    ultimately show ?thesis using Cons.prems by (auto split: if_splits)
  next
    case (Some j)
    with Cons show ?thesis by auto
  qed
qed

lemma str_rfind_char_None: "str_rfind_char c s = None \<longleftrightarrow> c \<notin> set s"
  by (induction s) (auto split: option.splits if_splits)

lemma str_rfind_char_append:
  "c \<notin> set t \<Longrightarrow> str_rfind_char c (s @ c # t) = Some (length s)"
  by (induction s) (auto simp: str_rfind_char_None split: option.splits)

lemma str_find_char_append:
  "c \<notin> set s \<Longrightarrow> str_find [c] (s @ c # t) = Some (length s)"
  by (induction s) auto

lemma str_find_char_None: "str_find [c] s = None \<longleftrightarrow> c \<notin> set s"
  by (induction s) auto

section \<open>Decimal conversion\<close>

definition digit_char :: "nat \<Rightarrow> char" where
  "digit_char n = char_of (48 + n)"

definition is_digit :: "char \<Rightarrow> bool" where
  "is_digit c \<longleftrightarrow> 48 \<le> (of_char c :: nat) \<and> (of_char c :: nat) \<le> 57"

definition digit_val :: "char \<Rightarrow> nat" where
  "digit_val c = of_char c - 48"

text \<open>\<open>std::to_string\<close> of an unsigned and of a signed integer.\<close>

fun nat_to_dec :: "nat \<Rightarrow> string" where
  "nat_to_dec n =
     (if n < 10 then [digit_char n] else nat_to_dec (n div 10) @ [digit_char (n mod 10)])"

declare nat_to_dec.simps [simp del]

definition int_to_dec :: "int \<Rightarrow> string" where
  "int_to_dec i = (if i < 0 then CHR ''-'' # nat_to_dec (nat (- i)) else nat_to_dec (nat i))"

text \<open>
  \<open>std::stoi\<close> and \<open>std::stoll\<close>: skip white space, read an optional sign and the longest
  run of digits; no digit is \<open>std::invalid_argument\<close>, a value that does not fit is
  \<open>std::out_of_range\<close>; what follows the digits is ignored.
\<close>

datatype conv_error = InvalidArgument | OutOfRange

definition is_space :: "char \<Rightarrow> bool" where
  "is_space c \<longleftrightarrow> (let n = (of_char c :: nat) in n = 32 \<or> (9 \<le> n \<and> n \<le> 13))"

fun dec_val :: "nat \<Rightarrow> string \<Rightarrow> nat" where
  "dec_val acc [] = acc"
| "dec_val acc (c # s) = dec_val (10 * acc + digit_val c) s"

definition parse_dec :: "string \<Rightarrow> nat option" where
  "parse_dec s =
     (let ds = takeWhile is_digit s in if ds = [] then None else Some (dec_val 0 ds))"

definition strtoll :: "string \<Rightarrow> int option" where
  "strtoll s =
     (case dropWhile is_space s of
        [] \<Rightarrow> None
      | c # r \<Rightarrow>
          if c = CHR ''-'' then map_option (\<lambda>n. - int n) (parse_dec r)
          else if c = CHR ''+'' then map_option int (parse_dec r)
          else map_option int (parse_dec (c # r)))"

definition sto :: "int \<Rightarrow> string \<Rightarrow> conv_error + int" where
  "sto bound s =
     (case strtoll s of
        None \<Rightarrow> Inl InvalidArgument
      | Some v \<Rightarrow> if - bound \<le> v \<and> v < bound then Inr v else Inl OutOfRange)"

definition stoi :: "string \<Rightarrow> conv_error + int" where
  "stoi = sto (2 ^ 31)"

definition stoll :: "string \<Rightarrow> conv_error + int" where
  "stoll = sto (2 ^ 63)"

lemma of_char_digit_char [simp]: "n < 10 \<Longrightarrow> (of_char (digit_char n) :: nat) = 48 + n"
  by (simp add: digit_char_def)

lemma is_digit_digit_char [simp]: "n < 10 \<Longrightarrow> is_digit (digit_char n)"
  by (simp add: is_digit_def)

lemma digit_val_digit_char [simp]: "n < 10 \<Longrightarrow> digit_val (digit_char n) = n"
  by (simp add: digit_val_def)

lemma dec_val_append: "dec_val acc (s @ t) = dec_val (dec_val acc s) t"
  by (induction acc s rule: dec_val.induct) auto

lemma nat_to_dec_digits: "\<forall>c \<in> set (nat_to_dec n). is_digit c"
proof (induction n rule: nat_to_dec.induct)
  case (1 n)
  then show ?case by (subst nat_to_dec.simps) auto
qed

lemma nat_to_dec_nonempty [simp]: "nat_to_dec n \<noteq> []"
  by (subst nat_to_dec.simps) simp

lemma dec_val_nat_to_dec: "dec_val 0 (nat_to_dec n) = n"
proof (induction n rule: nat_to_dec.induct)
  case (1 n)
  then show ?case
    by (subst nat_to_dec.simps) (auto simp: dec_val_append)
qed

lemma parse_dec_nat_to_dec: "parse_dec (nat_to_dec n @ t) = Some n"
  if "t = [] \<or> \<not> is_digit (hd t)"
proof -
  have "takeWhile is_digit (nat_to_dec n @ t) = nat_to_dec n @ takeWhile is_digit t"
    using nat_to_dec_digits by (intro takeWhile_append2) blast
  moreover have "takeWhile is_digit t = []" using that by (cases t) auto
  ultimately show ?thesis by (simp add: parse_dec_def dec_val_nat_to_dec)
qed

lemma nat_to_dec_hd: "is_digit (hd (nat_to_dec n))"
  using nat_to_dec_digits nat_to_dec_nonempty hd_in_set by blast

lemma is_digit_not_special:
  "is_digit c \<Longrightarrow> \<not> is_space c \<and> c \<noteq> CHR ''-'' \<and> c \<noteq> CHR ''+''"
  by (auto simp: is_digit_def is_space_def Let_def)

lemma strtoll_int_to_dec:
  assumes "t = [] \<or> \<not> is_digit (hd t)"
  shows "strtoll (int_to_dec i @ t) = Some i"
proof (cases "i < 0")
  case True
  then have "dropWhile is_space (int_to_dec i @ t) = CHR ''-'' # (nat_to_dec (nat (- i)) @ t)"
    by (simp add: int_to_dec_def is_space_def)
  with True show ?thesis
    by (simp add: strtoll_def parse_dec_nat_to_dec [OF assms])
next
  case False
  obtain c r where cr: "nat_to_dec (nat i) = c # r" by (cases "nat_to_dec (nat i)") auto
  with nat_to_dec_hd [of "nat i"] have c: "is_digit c" by simp
  from is_digit_not_special [OF c] have "dropWhile is_space (int_to_dec i @ t) = c # r @ t"
    using False cr by (simp add: int_to_dec_def)
  with is_digit_not_special [OF c] have "strtoll (int_to_dec i @ t)
      = map_option int (parse_dec (nat_to_dec (nat i) @ t))"
    by (simp add: strtoll_def cr)
  with False show ?thesis by (simp add: parse_dec_nat_to_dec [OF assms])
qed

lemma sto_int_to_dec:
  "- bound \<le> i \<Longrightarrow> i < bound \<Longrightarrow> sto bound (int_to_dec i) = Inr i"
  using strtoll_int_to_dec [of "[]" i] by (simp add: sto_def)

lemma sto_bounds: "sto bound s = Inr v \<Longrightarrow> - bound \<le> v \<and> v < bound"
  by (auto simp: sto_def split: option.splits if_splits)

section \<open>Characters\<close>

text \<open>\<open>std::tolower\<close> in the C locale.\<close>

definition tolower :: "char \<Rightarrow> char" where
  "tolower c = (let n = (of_char c :: nat) in if 65 \<le> n \<and> n \<le> 90 then char_of (n + 32) else c)"

end
