(* ===== verification/Channel.thy ===== *)
theory Channel
  imports Prelude
begin

text \<open>
  \<open>Channel<T>\<close> of \<open>src/concurrency/task.h\<close>: a queue with a capacity and a closed flag,
  guarded by one mutex and two condition variables. Each method is one critical section, or
  two separated by a wait. The sequential part models what a critical section computes
  (\<^term>\<open>None\<close> where the caller goes to sleep); the concurrent part adds the two wait sets
  and their notifications as a labelled step relation over any number of threads.
\<close>

section \<open>The critical sections\<close>

record 'a channel =
  buffer :: "'a list"
  capacity :: nat
  closed :: bool

definition new_channel :: "nat \<Rightarrow> 'a channel" where
  "new_channel cap = \<lparr>buffer = [], capacity = cap, closed = False\<rparr>"

definition push_value :: "'a \<Rightarrow> 'a channel \<Rightarrow> 'a channel" where
  "push_value v c = c\<lparr>buffer := queue_push v (buffer c)\<rparr>"

text \<open>The predicates of the two \<open>wait\<close> calls.\<close>

definition send_ready :: "'a channel \<Rightarrow> bool" where
  "send_ready c \<longleftrightarrow> length (buffer c) < capacity c \<or> closed c"

definition recv_ready :: "'a channel \<Rightarrow> bool" where
  "recv_ready c \<longleftrightarrow> buffer c \<noteq> [] \<or> closed c"

text \<open>
  What \<open>send\<close> does from its wait on, each time the thread holds the lock there: the result
  and the new channel, or \<^term>\<open>None\<close> when it sleeps on \<open>not_full\<close>.
\<close>

definition send_resume :: "'a \<Rightarrow> 'a channel \<Rightarrow> (bool \<times> 'a channel) option" where
  "send_resume v c =
     (if \<not> send_ready c then None
      else if closed c then Some (False, c)
      else Some (True, push_value v c))"

definition send :: "'a \<Rightarrow> 'a channel \<Rightarrow> (bool \<times> 'a channel) option" where
  "send v c =
     (if closed c then Some (False, c)
      else if 0 < capacity c then send_resume v c
      else Some (True, push_value v c))"

text \<open>\<open>receive\<close>: the value read (\<^term>\<open>None\<close> for the result \<open>false\<close>) and the new channel.\<close>

definition receive :: "'a channel \<Rightarrow> ('a option \<times> 'a channel) option" where
  "receive c =
     (if \<not> recv_ready c then None
      else case queue_pop (buffer c) of
        None \<Rightarrow> Some (None, c)
      | Some (v, q) \<Rightarrow> Some (Some v, c\<lparr>buffer := q\<rparr>))"

definition try_send :: "'a \<Rightarrow> 'a channel \<Rightarrow> bool \<times> 'a channel" where
  "try_send v c =
     (if closed c then (False, c)
      else if 0 < capacity c \<and> length (buffer c) \<ge> capacity c then (False, c)
      else (True, push_value v c))"

definition try_receive :: "'a channel \<Rightarrow> 'a option \<times> 'a channel" where
  "try_receive c =
     (case queue_pop (buffer c) of
        None \<Rightarrow> (None, c)
      | Some (v, q) \<Rightarrow> (Some v, c\<lparr>buffer := q\<rparr>))"

definition close :: "'a channel \<Rightarrow> 'a channel" where
  "close c = c\<lparr>closed := True\<rparr>"

definition is_closed :: "'a channel \<Rightarrow> bool" where
  "is_closed c = closed c"

definition chan_size :: "'a channel \<Rightarrow> nat" where
  "chan_size c = length (buffer c)"

section \<open>Threads, wait sets and notifications\<close>

text \<open>
  \<open>rx_wait\<close> and \<open>tx_wait\<close> are the threads asleep on \<open>not_empty\<close> and \<open>not_full\<close>;
  \<open>rx_woken\<close> and \<open>tx_woken\<close> those that were notified and have not yet re-acquired the
  mutex. A waiting sender keeps the value it wants to push.
\<close>

record 'a chan_sys =
  chan :: "'a channel"
  rx_wait :: "tid list"
  rx_woken :: "tid list"
  tx_wait :: "(tid \<times> 'a) list"
  tx_woken :: "(tid \<times> 'a) list"

definition init_sys :: "nat \<Rightarrow> 'a chan_sys" where
  "init_sys cap =
     \<lparr>chan = new_channel cap, rx_wait = [], rx_woken = [], tx_wait = [], tx_woken = []\<rparr>"

datatype 'a chan_event =
    Sent tid 'a | SendRefused tid 'a | SendBlocked tid 'a
  | Received tid 'a | RecvClosed tid | RecvBlocked tid
  | TrySendFailed tid 'a | TryRecvFailed tid | Closed tid | Spurious

text \<open>\<open>notify_one\<close> wakes any one sleeper, if there is one.\<close>

inductive notify_not_empty :: "'a chan_sys \<Rightarrow> 'a chan_sys \<Rightarrow> bool" where
  ne_none: "rx_wait s = [] \<Longrightarrow> notify_not_empty s s"
| ne_one: "rx_wait s = a @ t # b \<Longrightarrow>
     notify_not_empty s (s\<lparr>rx_wait := a @ b, rx_woken := t # rx_woken s\<rparr>)"

inductive notify_not_full :: "'a chan_sys \<Rightarrow> 'a chan_sys \<Rightarrow> bool" where
  nf_none: "tx_wait s = [] \<Longrightarrow> notify_not_full s s"
| nf_one: "tx_wait s = a @ t # b \<Longrightarrow>
     notify_not_full s (s\<lparr>tx_wait := a @ b, tx_woken := t # tx_woken s\<rparr>)"

text \<open>\<open>receive\<close> and \<open>try_receive\<close> notify \<open>not_full\<close> on bounded channels only.\<close>

definition after_pop :: "'a chan_sys \<Rightarrow> 'a chan_sys \<Rightarrow> bool" where
  "after_pop s s' \<longleftrightarrow> (if 0 < capacity (chan s) then notify_not_full s s' else s' = s)"

definition notify_all :: "'a chan_sys \<Rightarrow> 'a chan_sys" where
  "notify_all s =
     s\<lparr>rx_wait := [], rx_woken := rx_wait s @ rx_woken s,
       tx_wait := [], tx_woken := tx_wait s @ tx_woken s\<rparr>"

inductive chan_step :: "'a chan_sys \<Rightarrow> 'a chan_event \<Rightarrow> 'a chan_sys \<Rightarrow> bool" where
  send_ok: "send v (chan s) = Some (True, c) \<Longrightarrow> notify_not_empty (s\<lparr>chan := c\<rparr>) s' \<Longrightarrow>
     chan_step s (Sent t v) s'"
| send_refused: "send v (chan s) = Some (False, c) \<Longrightarrow>
     chan_step s (SendRefused t v) (s\<lparr>chan := c\<rparr>)"
| send_block: "send v (chan s) = None \<Longrightarrow>
     chan_step s (SendBlocked t v) (s\<lparr>tx_wait := tx_wait s @ [(t, v)]\<rparr>)"
| woken_send_ok: "tx_woken s = a @ (t, v) # b \<Longrightarrow> send_resume v (chan s) = Some (True, c) \<Longrightarrow>
     notify_not_empty (s\<lparr>chan := c, tx_woken := a @ b\<rparr>) s' \<Longrightarrow> chan_step s (Sent t v) s'"
| woken_send_refused: "tx_woken s = a @ (t, v) # b \<Longrightarrow>
     send_resume v (chan s) = Some (False, c) \<Longrightarrow>
     chan_step s (SendRefused t v) (s\<lparr>chan := c, tx_woken := a @ b\<rparr>)"
| woken_send_block: "tx_woken s = a @ (t, v) # b \<Longrightarrow> send_resume v (chan s) = None \<Longrightarrow>
     chan_step s (SendBlocked t v) (s\<lparr>tx_woken := a @ b, tx_wait := tx_wait s @ [(t, v)]\<rparr>)"
| recv_ok: "receive (chan s) = Some (Some v, c) \<Longrightarrow> after_pop (s\<lparr>chan := c\<rparr>) s' \<Longrightarrow>
     chan_step s (Received t v) s'"
| recv_closed: "receive (chan s) = Some (None, c) \<Longrightarrow>
     chan_step s (RecvClosed t) (s\<lparr>chan := c\<rparr>)"
| recv_block: "receive (chan s) = None \<Longrightarrow>
     chan_step s (RecvBlocked t) (s\<lparr>rx_wait := rx_wait s @ [t]\<rparr>)"
| woken_recv_ok: "rx_woken s = a @ t # b \<Longrightarrow> receive (chan s) = Some (Some v, c) \<Longrightarrow>
     after_pop (s\<lparr>chan := c, rx_woken := a @ b\<rparr>) s' \<Longrightarrow> chan_step s (Received t v) s'"
| woken_recv_closed: "rx_woken s = a @ t # b \<Longrightarrow> receive (chan s) = Some (None, c) \<Longrightarrow>
     chan_step s (RecvClosed t) (s\<lparr>chan := c, rx_woken := a @ b\<rparr>)"
| woken_recv_block: "rx_woken s = a @ t # b \<Longrightarrow> receive (chan s) = None \<Longrightarrow>
     chan_step s (RecvBlocked t) (s\<lparr>rx_woken := a @ b, rx_wait := rx_wait s @ [t]\<rparr>)"
| try_send_ok: "try_send v (chan s) = (True, c) \<Longrightarrow> notify_not_empty (s\<lparr>chan := c\<rparr>) s' \<Longrightarrow>
     chan_step s (Sent t v) s'"
| try_send_fail: "try_send v (chan s) = (False, c) \<Longrightarrow>
     chan_step s (TrySendFailed t v) (s\<lparr>chan := c\<rparr>)"
| try_recv_ok: "try_receive (chan s) = (Some v, c) \<Longrightarrow> after_pop (s\<lparr>chan := c\<rparr>) s' \<Longrightarrow>
     chan_step s (Received t v) s'"
| try_recv_fail: "try_receive (chan s) = (None, c) \<Longrightarrow>
     chan_step s (TryRecvFailed t) (s\<lparr>chan := c\<rparr>)"
| close_all: "chan_step s (Closed t) (notify_all (s\<lparr>chan := close (chan s)\<rparr>))"
| spurious_rx: "rx_wait s = a @ t # b \<Longrightarrow>
     chan_step s Spurious (s\<lparr>rx_wait := a @ b, rx_woken := t # rx_woken s\<rparr>)"
| spurious_tx: "tx_wait s = a @ t # b \<Longrightarrow>
     chan_step s Spurious (s\<lparr>tx_wait := a @ b, tx_woken := t # tx_woken s\<rparr>)"

section \<open>What a critical section does\<close>

lemmas chan_defs [channel_simps] =
  send_def send_resume_def receive_def try_send_def try_receive_def push_value_def
  send_ready_def recv_ready_def queue_push_def close_def after_pop_def notify_all_def

text \<open>Every successful push appends exactly the value, and only below the capacity.\<close>

definition pushed :: "'a \<Rightarrow> 'a channel \<Rightarrow> 'a channel \<Rightarrow> bool" where
  "pushed v c c' \<longleftrightarrow> c' = c\<lparr>buffer := buffer c @ [v]\<rparr> \<and> \<not> closed c
     \<and> (0 < capacity c \<longrightarrow> length (buffer c) < capacity c)"

definition popped :: "'a \<Rightarrow> 'a channel \<Rightarrow> 'a channel \<Rightarrow> bool" where
  "popped v c c' \<longleftrightarrow> buffer c = v # buffer c' \<and> c = c'\<lparr>buffer := buffer c\<rparr>"

lemma send_pushed: "send v c = Some (True, c') \<Longrightarrow> pushed v c c'"
  by (auto simp: channel_simps pushed_def split: if_splits)

lemma send_resume_pushed: "send_resume v c = Some (True, c') \<Longrightarrow> pushed v c c'"
  by (auto simp: channel_simps pushed_def split: if_splits)

lemma try_send_pushed: "try_send v c = (True, c') \<Longrightarrow> pushed v c c'"
  by (auto simp: channel_simps pushed_def split: if_splits)

lemma receive_popped: "receive c = Some (Some v, c') \<Longrightarrow> popped v c c'"
  by (cases "buffer c") (auto simp: channel_simps popped_def split: if_splits)

lemma try_receive_popped: "try_receive c = (Some v, c') \<Longrightarrow> popped v c c'"
  by (cases "buffer c") (auto simp: channel_simps popped_def split: if_splits)

lemma refused_unchanged:
  "send v c = Some (False, c') \<Longrightarrow> c' = c \<and> closed c"
  "send_resume v c = Some (False, c') \<Longrightarrow> c' = c \<and> closed c"
  "try_send v c = (False, c') \<Longrightarrow> c' = c"
  by (auto simp: channel_simps split: if_splits)

lemma no_value_unchanged:
  "receive c = Some (None, c') \<Longrightarrow> c' = c \<and> closed c \<and> buffer c = []"
  "try_receive c = (None, c') \<Longrightarrow> c' = c \<and> buffer c = []"
  by (cases "buffer c"; auto simp: channel_simps split: if_splits)+

lemma blocked_cases:
  "send v c = None \<Longrightarrow> \<not> closed c \<and> 0 < capacity c \<and> capacity c \<le> length (buffer c)"
  "send_resume v c = None \<Longrightarrow> \<not> closed c \<and> capacity c \<le> length (buffer c)"
  "receive c = None \<Longrightarrow> \<not> closed c \<and> buffer c = []"
  by (auto simp: channel_simps split: if_splits option.splits)

lemmas chan_outcomes =
  send_pushed send_resume_pushed try_send_pushed receive_popped try_receive_popped
  refused_unchanged no_value_unchanged blocked_cases

section \<open>No lost wake-up\<close>

text \<open>
  The invariant that makes \<open>notify_one\<close> enough: while a receiver sleeps, every buffered
  value is matched by a receiver that was woken for it; while a sender sleeps, every free
  slot is matched by a woken sender; nobody sleeps on a closed channel.
\<close>

definition chan_inv :: "'a chan_sys \<Rightarrow> bool" where
  "chan_inv s \<longleftrightarrow>
     (rx_wait s \<noteq> [] \<longrightarrow> \<not> closed (chan s) \<and> length (buffer (chan s)) \<le> length (rx_woken s)) \<and>
     (tx_wait s \<noteq> [] \<longrightarrow> \<not> closed (chan s) \<and> 0 < capacity (chan s) \<and>
        capacity (chan s) \<le> length (buffer (chan s)) + length (tx_woken s)) \<and>
     (0 < capacity (chan s) \<longrightarrow> length (buffer (chan s)) \<le> capacity (chan s)) \<and>
     (tx_woken s \<noteq> [] \<longrightarrow> 0 < capacity (chan s))"

lemma chan_inv_init: "chan_inv (init_sys cap)"
  by (simp add: chan_inv_def init_sys_def new_channel_def)

text \<open>The three ways a step changes the wait sets, each kept once.\<close>

lemma notify_not_empty_push:
  assumes "pushed v (chan s) c" "notify_not_empty (s\<lparr>chan := c, tx_woken := k\<rparr>) s'" "chan_inv s"
    "length (tx_woken s) \<le> Suc (length k)" "k \<noteq> [] \<longrightarrow> tx_woken s \<noteq> []"
  shows "chan_inv s'"
  using assms(2,1,3-)
  by (cases rule: notify_not_empty.cases) (auto simp: chan_inv_def pushed_def)

lemma after_pop_inv:
  assumes "popped v (chan s) c" "after_pop (s\<lparr>chan := c, rx_woken := k\<rparr>) s'" "chan_inv s"
    "length (rx_woken s) \<le> Suc (length k)"
  shows "chan_inv s'"
proof -
  from assms(1) obtain q where q: "buffer (chan s) = v # q" "buffer c = q"
      "capacity c = capacity (chan s)" "closed c = closed (chan s)"
    by (cases c; cases "chan s") (auto simp: popped_def)
  show ?thesis
  proof (cases "0 < capacity c")
    case True
    with assms(2) have "notify_not_full (s\<lparr>chan := c, rx_woken := k\<rparr>) s'"
      by (simp add: after_pop_def)
    then show ?thesis using q assms(3,4)
      by (cases rule: notify_not_full.cases) (auto simp: chan_inv_def)
  next
    case False
    with assms(2) have "s' = s\<lparr>chan := c, rx_woken := k\<rparr>"
      by (simp add: after_pop_def)
    with q assms(3,4) False show ?thesis by (auto simp: chan_inv_def)
  qed
qed

lemma chan_inv_same: "chan_inv (s\<lparr>chan := chan s\<rparr>) = chan_inv s"
  by simp

lemma chan_step_inv: "chan_step s e s' \<Longrightarrow> chan_inv s \<Longrightarrow> chan_inv s'"
proof (induction rule: chan_step.induct)
  case (send_ok v s c s' t)
  then show ?case
    using notify_not_empty_push [OF send_pushed,
        where v = v and s = s and c = c and k = "tx_woken s" and s' = s'] by simp
next
  case (woken_send_ok s a t v b c s')
  then show ?case
    using notify_not_empty_push [OF send_resume_pushed,
        where v = v and s = s and c = c and k = "a @ b" and s' = s'] by simp
next
  case (try_send_ok v s c s' t)
  then show ?case
    using notify_not_empty_push [OF try_send_pushed,
        where v = v and s = s and c = c and k = "tx_woken s" and s' = s'] by simp
next
  case (recv_ok s v c s' t)
  then show ?case using after_pop_inv [OF receive_popped,
        where v = v and s = s and c = c and k = "rx_woken s" and s' = s'] by simp
next
  case (woken_recv_ok s a t b v c s')
  then show ?case using after_pop_inv [OF receive_popped,
        where v = v and s = s and c = c and k = "a @ b" and s' = s'] by simp
next
  case (try_recv_ok s v c s' t)
  then show ?case using after_pop_inv [OF try_receive_popped,
        where v = v and s = s and c = c and k = "rx_woken s" and s' = s'] by simp
qed (auto simp: chan_inv_def notify_all_def close_def dest: refused_unchanged no_value_unchanged blocked_cases)

interpretation chan_sys: invariant_system chan_step chan_inv
  by unfold_locales (rule chan_step_inv)

text \<open>
  C1. No wake-up is lost. In every state that any interleaving of senders, receivers,
  \<open>try_\<close> operations, closes and spurious wake-ups reaches: if a receiver sleeps although a
  value is buffered, another receiver has been woken and will re-check the buffer; if a
  sender sleeps although the bounded buffer has room, another sender has been woken; and
  after \<open>close\<close> nobody sleeps.
\<close>
theorem no_lost_wakeup:
  assumes "run chan_step (init_sys cap) es s"
  shows "(rx_wait s \<noteq> [] \<and> buffer (chan s) \<noteq> [] \<longrightarrow> rx_woken s \<noteq> []) \<and>
         (tx_wait s \<noteq> [] \<and> length (buffer (chan s)) < capacity (chan s) \<longrightarrow> tx_woken s \<noteq> []) \<and>
         (closed (chan s) \<longrightarrow> rx_wait s = [] \<and> tx_wait s = [])"
  using chan_sys.inv_run [OF assms chan_inv_init] by (auto simp: chan_inv_def)

section \<open>First in, first out\<close>

fun sent_values :: "'a chan_event list \<Rightarrow> 'a list" where
  "sent_values [] = []"
| "sent_values (Sent t v # es) = v # sent_values es"
| "sent_values (_ # es) = sent_values es"

fun received_values :: "'a chan_event list \<Rightarrow> 'a list" where
  "received_values [] = []"
| "received_values (Received t v # es) = v # received_values es"
| "received_values (_ # es) = received_values es"

lemma sent_values_append [simp]: "sent_values (es @ fs) = sent_values es @ sent_values fs"
  by (induction es rule: sent_values.induct) auto

lemma received_values_append [simp]:
  "received_values (es @ fs) = received_values es @ received_values fs"
  by (induction es rule: received_values.induct) auto

definition fifo_hist :: "'a chan_event list \<Rightarrow> 'a chan_sys \<Rightarrow> bool" where
  "fifo_hist es s \<longleftrightarrow> sent_values es = received_values es @ buffer (chan s)"

lemma notify_chan:
  "notify_not_empty s s' \<Longrightarrow> chan s' = chan s"
  "notify_not_full s s' \<Longrightarrow> chan s' = chan s"
  "after_pop s s' \<Longrightarrow> chan s' = chan s"
  by (auto elim: notify_not_empty.cases notify_not_full.cases simp: after_pop_def split: if_splits)

lemma chan_step_buffer:
  "chan_step s e s' \<Longrightarrow>
     (case e of Sent t v \<Rightarrow> buffer (chan s') = buffer (chan s) @ [v]
      | Received t v \<Rightarrow> buffer (chan s) = v # buffer (chan s')
      | _ \<Rightarrow> buffer (chan s') = buffer (chan s))"
  by (induction rule: chan_step.induct)
     (auto dest!: notify_chan chan_outcomes simp: pushed_def popped_def notify_all_def close_def)

lemma fifo_hist_step: "fifo_hist es s \<Longrightarrow> chan_step s e s' \<Longrightarrow> fifo_hist (es @ [e]) s'"
  using chan_step_buffer [of s e s'] by (cases e) (auto simp: fifo_hist_def)

interpretation chan_fifo: history_system chan_step chan_inv fifo_hist
  by unfold_locales (rule fifo_hist_step)

text \<open>
  C2. The channel is a FIFO: along every interleaving, the values received so far followed
  by the buffer are exactly the values sent so far, in the order the sends took effect.
  Nothing is lost, duplicated or reordered, whichever mix of blocking and \<open>try_\<close>
  operations is used.
\<close>
theorem channel_fifo:
  assumes "run chan_step (init_sys cap) es s"
  shows "sent_values es = received_values es @ buffer (chan s)"
proof -
  have "fifo_hist [] (init_sys cap)" by (simp add: fifo_hist_def init_sys_def new_channel_def)
  from chan_fifo.hist_run [OF assms chan_inv_init this] show ?thesis by (simp add: fifo_hist_def)
qed

text \<open>A run in which one sleeping receiver is woken and a second one stays asleep.\<close>

definition demo_state :: "nat chan_sys" where
  "demo_state =
     \<lparr>chan = \<lparr>buffer = [7], capacity = 1, closed = False\<rparr>, rx_wait = [2], rx_woken = [1],
      tx_wait = [], tx_woken = []\<rparr>"

lemma demo_run:
  "run chan_step (init_sys 1) [RecvBlocked 1, RecvBlocked 2, Sent 3 7] demo_state"
proof -
  let ?s1 = "(init_sys 1 :: nat chan_sys)\<lparr>rx_wait := [1]\<rparr>"
  let ?s2 = "(init_sys 1 :: nat chan_sys)\<lparr>rx_wait := [1, 2]\<rparr>"
  have "chan_step (init_sys 1) (RecvBlocked 1) ?s1"
    using recv_block [of "init_sys 1" 1] by (simp add: channel_simps init_sys_def new_channel_def)
  moreover have "chan_step ?s1 (RecvBlocked 2) ?s2"
    using recv_block [of ?s1 2] by (simp add: channel_simps init_sys_def new_channel_def)
  moreover have "chan_step ?s2 (Sent 3 7) demo_state"
  proof (rule send_ok)
    show "send 7 (chan ?s2) = Some (True, chan demo_state)"
      by (simp add: channel_simps init_sys_def new_channel_def demo_state_def)
    show "notify_not_empty (?s2\<lparr>chan := chan demo_state\<rparr>) demo_state"
      using ne_one [of "?s2\<lparr>chan := chan demo_state\<rparr>" "[]" 1 "[2]"]
      by (simp add: init_sys_def new_channel_def demo_state_def)
  qed
  ultimately show ?thesis by (blast intro: run.intros)
qed

theorem no_lost_wakeup_witness:
  "rx_wait demo_state \<noteq> [] \<and> buffer (chan demo_state) \<noteq> [] \<and> rx_woken demo_state \<noteq> []"
  using no_lost_wakeup [OF demo_run] by (simp add: demo_state_def)

theorem channel_fifo_witness:
  "sent_values [RecvBlocked 1, RecvBlocked 2, Sent 3 (7 :: nat)] = [] @ buffer (chan demo_state)"
  using channel_fifo [OF demo_run] by simp

section \<open>Capacity and closing\<close>

lemma chan_step_capacity: "chan_step s e s' \<Longrightarrow> capacity (chan s') = capacity (chan s)"
  by (induction rule: chan_step.induct)
     (auto dest!: notify_chan chan_outcomes simp: pushed_def popped_def notify_all_def close_def
       dest: arg_cong [where f = capacity])

interpretation chan_cap: invariant_system chan_step "\<lambda>s. capacity (chan s) = cap" for cap
  by unfold_locales (simp add: chan_step_capacity)

text \<open>
  C34. A bounded channel never holds more than its capacity, whatever the interleaving.
\<close>
theorem channel_bounded:
  assumes "run chan_step (init_sys cap) es s" and "0 < cap"
  shows "length (buffer (chan s)) \<le> cap"
proof -
  have "capacity (chan s) = cap"
    using chan_cap.inv_run [OF assms(1)] by (simp add: init_sys_def new_channel_def)
  with chan_sys.inv_run [OF assms(1) chan_inv_init] assms(2) show ?thesis
    by (simp add: chan_inv_def)
qed

theorem channel_bounded_witness: "length (buffer (chan demo_state)) \<le> 1"
  using channel_bounded [OF demo_run] by simp

text \<open>
  A channel of capacity 0 is an unbounded buffer: \<open>send\<close> never blocks and succeeds
  without any receiver as long as the channel is open. (\<open>src/concurrency/README.md\<close>
  documents capacity 0 as an unbuffered channel.)
\<close>

theorem zero_capacity_unbounded:
  "send v (c\<lparr>capacity := 0, closed := False\<rparr>)
     = Some (True, c\<lparr>capacity := 0, closed := False, buffer := buffer c @ [v]\<rparr>)"
  by (simp add: channel_simps)

fun receive_n :: "nat \<Rightarrow> 'a channel \<Rightarrow> 'a option list" where
  "receive_n 0 c = []"
| "receive_n (Suc n) c =
     (case receive c of None \<Rightarrow> [] | Some (r, c') \<Rightarrow> r # receive_n n c')"

lemma receive_n_empty:
  "closed c \<Longrightarrow> buffer c = [] \<Longrightarrow> receive_n k c = replicate k None"
  by (induction k) (auto simp: channel_simps)

text \<open>
  Closing does not lose buffered values: on a closed channel successive receives return
  every buffered value in order, then report closed for ever, and never block.
\<close>
theorem closed_channel_drains:
  "receive_n (length (buffer c) + k) (close c) = map Some (buffer c) @ replicate k None"
proof (induction "buffer c" arbitrary: c)
  case Nil
  then show ?case by (simp add: receive_n_empty close_def)
next
  case (Cons v q)
  from Cons.hyps(2) [symmetric] have "receive (close c) = Some (Some v, close (c\<lparr>buffer := q\<rparr>))"
    by (simp add: channel_simps)
  with Cons.hyps(1) [of "c\<lparr>buffer := q\<rparr>"] Cons.hyps(2) [symmetric] show ?case by simp
qed

end
