(* ===== verification/QueueSpec.thy ===== *)
theory QueueSpec
  imports Channel
begin

text \<open>
  What \<open>Channel<T>\<close> promises, without mutex, condition variables and wait sets: a queue with a
  capacity and a closed flag, on which every completed call of \<open>src/concurrency/task.h\<close> is one
  atomic step. The channel with its threads is shown to be a refinement: each call takes effect at
  once, in the order of the events, and blocks only where the specification says so.
\<close>

section \<open>The specification\<close>

record 'a queue_spec =
  items :: "'a list"
  bound :: nat
  shut :: bool

definition spec_init :: "nat \<Rightarrow> 'a queue_spec" where
  "spec_init cap = \<lparr> items = [], bound = cap, shut = False \<rparr>"

definition full :: "'a queue_spec \<Rightarrow> bool" where
  "full q \<longleftrightarrow> 0 < bound q \<and> bound q \<le> length (items q)"

inductive queue_step :: "'a queue_spec \<Rightarrow> 'a chan_event \<Rightarrow> 'a queue_spec \<Rightarrow> bool" where
  q_sent: "\<not> shut q \<Longrightarrow> \<not> full q \<Longrightarrow> queue_step q (Sent t v) (q\<lparr>items := items q @ [v]\<rparr>)"
| q_received: "items q = v # xs \<Longrightarrow> queue_step q (Received t v) (q\<lparr>items := xs\<rparr>)"
| q_send_refused: "shut q \<Longrightarrow> queue_step q (SendRefused t v) q"
| q_send_blocked: "\<not> shut q \<Longrightarrow> full q \<Longrightarrow> queue_step q (SendBlocked t v) q"
| q_recv_closed: "shut q \<Longrightarrow> items q = [] \<Longrightarrow> queue_step q (RecvClosed t) q"
| q_recv_blocked: "\<not> shut q \<Longrightarrow> items q = [] \<Longrightarrow> queue_step q (RecvBlocked t) q"
| q_try_send_failed: "shut q \<or> full q \<Longrightarrow> queue_step q (TrySendFailed t v) q"
| q_try_recv_failed: "items q = [] \<Longrightarrow> queue_step q (TryRecvFailed t) q"
| q_closed: "queue_step q (Closed t) (q\<lparr>shut := True\<rparr>)"
| q_stutter: "queue_step q Spurious q"

inductive_simps queue_sent: "queue_step q (Sent t v) q'"
inductive_simps queue_received: "queue_step q (Received t v) q'"
inductive_simps queue_blocked: "queue_step q (SendBlocked t v) q'" "queue_step q (RecvBlocked t) q'"
inductive_simps queue_refused: "queue_step q (SendRefused t v) q'" "queue_step q (RecvClosed t) q'"
inductive_simps queue_failed: "queue_step q (TrySendFailed t v) q'" "queue_step q (TryRecvFailed t) q'"
inductive_simps queue_other: "queue_step q (Closed t) q'" "queue_step q Spurious q'"

lemmas queue_events = queue_sent queue_received queue_blocked queue_refused queue_failed queue_other

section \<open>Refinement\<close>

definition spec_of :: "'a chan_sys \<Rightarrow> 'a queue_spec" where
  "spec_of s = \<lparr> items = buffer (chan s), bound = capacity (chan s), shut = closed (chan s) \<rparr>"

lemma spec_of_chan: "chan s' = c \<Longrightarrow> spec_of s' = \<lparr> items = buffer c, bound = capacity c, shut = closed c \<rparr>"
  by (simp add: spec_of_def)

lemma spec_of_init: "spec_of (init_sys cap) = spec_init cap"
  by (simp add: spec_of_def init_sys_def new_channel_def spec_init_def)

lemma pushed_spec: "pushed v (chan s) c \<Longrightarrow> chan s' = c \<Longrightarrow> queue_step (spec_of s) (Sent t v) (spec_of s')"
  by (auto simp: queue_events spec_of_def pushed_def full_def)

lemma popped_spec: "popped v (chan s) c \<Longrightarrow> chan s' = c \<Longrightarrow> queue_step (spec_of s) (Received t v) (spec_of s')"
  by (cases "chan s"; cases c) (auto simp: queue_events spec_of_def popped_def)

lemma try_send_failed: "try_send v c = (False, c') \<Longrightarrow> closed c \<or> 0 < capacity c \<and> capacity c \<le> length (buffer c)"
  by (auto simp: channel_simps split: if_splits)

lemma chan_step_spec: "chan_step s e s' \<Longrightarrow> chan_inv s \<Longrightarrow> queue_step (spec_of s) e (spec_of s')"
proof (induction rule: chan_step.induct)
  case (send_ok v s c s' t)
  then show ?case using pushed_spec [OF send_pushed] notify_chan(1) by fastforce
next
  case (woken_send_ok s a t v b c s')
  then show ?case using pushed_spec [OF send_resume_pushed] notify_chan(1) by fastforce
next
  case (try_send_ok v s c s' t)
  then show ?case using pushed_spec [OF try_send_pushed] notify_chan(1) by fastforce
next
  case (recv_ok s v c s' t)
  then show ?case using popped_spec [OF receive_popped] notify_chan(3) by fastforce
next
  case (woken_recv_ok s a t b v c s')
  then show ?case using popped_spec [OF receive_popped] notify_chan(3) by fastforce
next
  case (try_recv_ok s v c s' t)
  then show ?case using popped_spec [OF try_receive_popped] notify_chan(3) by fastforce
qed (auto simp: queue_events spec_of_def full_def close_def notify_all_def chan_inv_def
      dest: refused_unchanged no_value_unchanged blocked_cases try_send_failed)

interpretation chan_sim: simulation chan_step chan_inv queue_step spec_of
  by unfold_locales (auto intro: chan_step_spec)



end
