(* ===== verification/Logging.thy ===== *)
theory Logging
  imports Prelude
begin

text \<open>
  The logging helpers at the top of \<open>src/concurrency/task.cc\<close>: the level is read once from the
  environment, and a message is printed when the level reaches the one of the helper. The levels
  are compared as the enumeration orders them.
\<close>

section \<open>Levels\<close>

datatype log_level = Error | Info | Debug

fun level_value :: "log_level \<Rightarrow> nat" where
  "level_value Error = 0"
| "level_value Info = 1"
| "level_value Debug = 2"

lemma level_value_inj [simp]: "level_value a = level_value b \<longleftrightarrow> a = b"
  by (cases a; cases b) simp_all

instantiation log_level :: linorder
begin

definition less_eq_log_level :: "log_level \<Rightarrow> log_level \<Rightarrow> bool" where
  "less_eq_log_level a b \<longleftrightarrow> level_value a \<le> level_value b"

definition less_log_level :: "log_level \<Rightarrow> log_level \<Rightarrow> bool" where
  "less_log_level a b \<longleftrightarrow> level_value a < level_value b"

instance
  by standard (auto simp: less_eq_log_level_def less_log_level_def)

end

section \<open>The helpers\<close>

record log_state =
  g_log_level :: log_level
  g_log_level_inited :: bool

definition log_init :: log_state where
  "log_init = \<lparr> g_log_level = Error, g_log_level_inited = False \<rparr>"

text \<open>The argument is the value of \<open>KODE_LOG_LEVEL\<close>, if it is set.\<close>

definition init_log_level_from_env :: "string option \<Rightarrow> log_state \<Rightarrow> log_state" where
  "init_log_level_from_env env g =
     (if g_log_level_inited g then g
      else (let g1 = g\<lparr>g_log_level_inited := True\<rparr> in
            case env of
              None \<Rightarrow> g1
            | Some e \<Rightarrow>
                (let s = map tolower e in
                 if s = ''debug'' then g1\<lparr>g_log_level := Debug\<rparr>
                 else if s = ''info'' then g1\<lparr>g_log_level := Info\<rparr>
                 else if s = ''error'' then g1\<lparr>g_log_level := Error\<rparr>
                 else g1)))"

text \<open>The lines that a call prints: on the standard output, for errors on the error output.\<close>

definition log_info :: "log_state \<Rightarrow> string \<Rightarrow> string list" where
  "log_info g msg = (if Info \<le> g_log_level g then [msg] else [])"

definition log_debug :: "log_state \<Rightarrow> string \<Rightarrow> string list" where
  "log_debug g msg = (if Debug \<le> g_log_level g then [msg] else [])"

definition log_error :: "log_state \<Rightarrow> string \<Rightarrow> string list" where
  "log_error g msg = [msg]"

section \<open>Properties\<close>

lemma level_bottom [simp]: "Error \<le> l"
  by (cases l) (simp_all add: less_eq_log_level_def)

lemma level_top [simp]: "l \<le> Debug"
  by (cases l) (simp_all add: less_eq_log_level_def)

text \<open>A level that prints debug messages prints the informative ones too.\<close>

lemma log_monotone: "log_debug g m \<noteq> [] \<Longrightarrow> log_info g m' = [m']"
  unfolding log_debug_def log_info_def by (metis level_top order_trans)

lemma log_level_read_once:
  "init_log_level_from_env e2 (init_log_level_from_env e1 g) = init_log_level_from_env e1 g"
  by (auto simp: init_log_level_from_env_def Let_def split: option.splits)

lemma log_quiet_by_default: "log_info (init_log_level_from_env None log_init) m = []"
  by (simp add: init_log_level_from_env_def log_init_def log_info_def less_eq_log_level_def)

lemma log_level_from_env:
  "map tolower e = ''debug'' \<Longrightarrow> g_log_level (init_log_level_from_env (Some e) log_init) = Debug"
  "map tolower e = ''info'' \<Longrightarrow> g_log_level (init_log_level_from_env (Some e) log_init) = Info"
  by (simp_all add: init_log_level_from_env_def log_init_def)

end
