(* ===== verification/Task.thy ===== *)
theory Task
  imports Prelude
begin

unbundle bit_operations_syntax

text \<open>
  The \<open>Task\<close> class of \<open>src/concurrency/task.h\<close> and \<open>task.cc\<close>: its state word, its
  cancellation flag, its stack and the saved register context. A task function is the
  argument \<open>f\<close> of the operations that call it: it may change the task object (through
  \<open>cancel\<close> or \<open>set_state\<close>) and it returns, throws a \<open>std::exception\<close>, or throws
  something else. Time stamps come from a clock reading \<open>now\<close>, addresses of the stack
  vector from the allocator.
\<close>

section \<open>Data\<close>

datatype task_state = CREATED | RUNNABLE | RUNNING | BLOCKED | COMPLETED | CANCELLED

text \<open>\<open>Task::ExecutionContext\<close>: the registers, the FXSAVE area and the stack bounds.\<close>

record registers =
  rax :: u64  rbx :: u64  rcx :: u64  rdx :: u64
  rsi :: u64  rdi :: u64  rbp :: u64  rsp :: u64
  r8 :: u64  r9 :: u64  r10 :: u64  r11 :: u64
  r12 :: u64  r13 :: u64  r14 :: u64  r15 :: u64
  rip :: u64  rflags :: u64

record exec_context = registers +
  fpu_state :: "u8 list"
  stack_base :: u64
  stack_top :: u64
  stack_size :: u64

record task =
  task_id :: tid
  state :: task_state
  stack :: u64          \<comment> \<open>size of the stack vector\<close>
  stack_pointer :: u64
  created_at :: nat
  last_run :: nat
  uctx_initialized :: bool
  ctx :: exec_context
  cancelled :: bool
  cleanup :: bool       \<comment> \<open>whether a cleanup function is registered\<close>

datatype fn_outcome = Returns | ThrowsStd string | ThrowsOther

type_synonym task_fn = "task \<Rightarrow> fn_outcome \<times> task"

definition INITIAL_STACK_SIZE :: u64 where "INITIAL_STACK_SIZE = 256 * 1024"
definition MAX_STACK_SIZE :: u64 where "MAX_STACK_SIZE = 1024 * 1024"

section \<open>Operations\<close>

definition initialize_stack :: "u64 \<Rightarrow> task \<Rightarrow> task" where
  "initialize_stack data t =
     t\<lparr>stack := INITIAL_STACK_SIZE, stack_pointer := data + INITIAL_STACK_SIZE\<rparr>"

text \<open>
  The constructor leaves \<open>context_\<close>, \<open>last_run_\<close> and \<open>stack_pointer_\<close> uninitialised until
  \<open>initialize_stack\<close>; their initial contents are the argument \<open>raw\<close>.
\<close>

definition new_task :: "task \<Rightarrow> tid \<Rightarrow> nat \<Rightarrow> u64 \<Rightarrow> task" where
  "new_task raw i now data =
     initialize_stack data
       (raw\<lparr>task_id := i, state := CREATED, cancelled := False, created_at := now,
            uctx_initialized := False, cleanup := False\<rparr>)"

text \<open>The destructor calls the registered cleanup function, if any.\<close>

definition destroy_calls_cleanup :: "task \<Rightarrow> bool" where
  "destroy_calls_cleanup t = cleanup t"

definition task_exception_log :: "task \<Rightarrow> string \<Rightarrow> string" where
  "task_exception_log t what = ''[Task '' @ nat_to_dec (task_id t) @ ''] Exception: '' @ what"

text \<open>
  The body shared by \<open>run\<close> and \<open>invoke\<close>: call the function inside the \<open>try\<close>. The result
  is the task, the lines written to \<open>std::cerr\<close>, and whether an exception escapes.
\<close>

definition call_function :: "task_fn \<Rightarrow> task \<Rightarrow> task \<times> string list \<times> bool" where
  "call_function f t =
     (case f t of
        (Returns, t') \<Rightarrow> (t'\<lparr>state := COMPLETED\<rparr>, [], False)
      | (ThrowsStd what, t') \<Rightarrow>
          (t'\<lparr>state := COMPLETED\<rparr>, [task_exception_log t' what], False)
      | (ThrowsOther, t') \<Rightarrow> (t', [], True))"

definition task_run :: "task_fn \<Rightarrow> nat \<Rightarrow> task \<Rightarrow> task \<times> string list \<times> bool" where
  "task_run f now t =
     (if cancelled t \<or> state t = COMPLETED then (t, [], False)
      else call_function f (t\<lparr>state := RUNNING, last_run := now\<rparr>))"

definition task_invoke :: "task_fn \<Rightarrow> task \<Rightarrow> task \<times> string list \<times> bool" where
  "task_invoke f t =
     (if cancelled t then (t\<lparr>state := CANCELLED\<rparr>, [], False)
      else call_function f (t\<lparr>state := RUNNING\<rparr>))"

text \<open>
  \<open>yield\<close> up to the context switch: an exception, or the task as the scheduler sees it;
  and what happens after control comes back.
\<close>

definition yield_commit :: "nat \<Rightarrow> task \<Rightarrow> task" where
  "yield_commit now t = t\<lparr>state := RUNNABLE, last_run := now\<rparr>"

definition yield_before :: "nat \<Rightarrow> task \<Rightarrow> string + task" where
  "yield_before now t =
     (if cancelled t then Inl ''Task cancelled'' else Inr (yield_commit now t))"

definition yield_after :: "task \<Rightarrow> string + task" where
  "yield_after t = (if cancelled t then Inl ''Task cancelled during yield'' else Inr t)"

definition cancel :: "task \<Rightarrow> task" where
  "cancel t = t\<lparr>cancelled := True, state := CANCELLED\<rparr>"

definition is_cancelled :: "task \<Rightarrow> bool" where
  "is_cancelled t = cancelled t"

definition set_state :: "task_state \<Rightarrow> task \<Rightarrow> task" where
  "set_state st t = t\<lparr>state := st\<rparr>"

definition get_age :: "nat \<Rightarrow> task \<Rightarrow> int" where
  "get_age now t = int now - int (created_at t)"

definition set_cleanup :: "task \<Rightarrow> task" where
  "set_cleanup t = t\<lparr>cleanup := True\<rparr>"

subsection \<open>Register contexts\<close>

text \<open>
  \<open>save_context\<close> stores the callee-saved registers, the flags and the address \<open>ip\<close> of its
  own code; its scratch register receives the flags.
\<close>

definition save_context :: "u64 \<Rightarrow> registers \<Rightarrow> task \<Rightarrow> registers \<times> task" where
  "save_context ip cpu t =
     (cpu\<lparr>rax := rflags cpu\<rparr>,
      t\<lparr>ctx := (ctx t)\<lparr>rsp := rsp cpu, rbp := rbp cpu, rbx := rbx cpu, r12 := r12 cpu,
          r13 := r13 cpu, r14 := r14 cpu, r15 := r15 cpu, rflags := rflags cpu, rip := ip\<rparr>\<rparr>)"

text \<open>\<open>restore_context\<close> loads the flags and six registers; it leaves \<open>rsp\<close> and \<open>rip\<close>.\<close>

definition restore_context :: "task \<Rightarrow> registers \<Rightarrow> registers" where
  "restore_context t cpu =
     cpu\<lparr>rax := rflags (ctx t), rflags := rflags (ctx t), rbx := rbx (ctx t),
         rbp := rbp (ctx t), r12 := r12 (ctx t), r13 := r13 (ctx t), r14 := r14 (ctx t),
         r15 := r15 (ctx t)\<rparr>"

fun context_switch ::
  "u64 \<Rightarrow> registers \<Rightarrow> task option \<Rightarrow> task option \<Rightarrow> registers \<times> task option \<times> task option" where
  "context_switch ip cpu (Some from) (Some to) =
     (let (cpu', from') = save_context ip cpu from;
          from'' = set_state RUNNABLE from';
          cpu'' = restore_context to cpu'
      in (cpu'', Some from'', Some (set_state RUNNING to)))"
| "context_switch ip cpu from to = (cpu, from, to)"

subsection \<open>Stack growth\<close>

definition align16 :: "u64 \<Rightarrow> u64" where
  "align16 a = (a + 15) AND NOT 15"

text \<open>
  \<open>data\<close> is the address of the stack vector after \<open>resize\<close>. The last lines of the source
  recompute \<open>rsp\<close> from the new base.
\<close>

definition grow_stack_if_needed :: "u64 \<Rightarrow> task \<Rightarrow> bool \<times> task" where
  "grow_stack_if_needed data t =
     (if stack t \<ge> MAX_STACK_SIZE then (False, t)
      else
        (let current_sp = rsp (ctx t); base = stack_base (ctx t) in
         if current_sp \<le> base + 1024 then
           (let new_size = min (stack t * 2) MAX_STACK_SIZE;
                stack_addr = align16 data;
                top = stack_addr + new_size - 16;
                offset_from_base = current_sp - stack_addr
            in (True, t\<lparr>stack := new_size,
                  ctx := (ctx t)\<lparr>stack_base := stack_addr, stack_top := top,
                     stack_size := new_size, rsp := stack_addr + offset_from_base\<rparr>,
                  stack_pointer := top\<rparr>))
         else (True, t)))"

definition check_stack_overflow :: "task \<Rightarrow> bool" where
  "check_stack_overflow t \<longleftrightarrow> rsp (ctx t) \<le> stack_base (ctx t)"

section \<open>Properties\<close>

text \<open>
  \<open>run\<close> and \<open>invoke\<close> always leave the task in a final state unless something other
  than a \<open>std::exception\<close> escapes the task function: a cancelled task is not called at all,
  every other task ends \<open>COMPLETED\<close>, whether its function returned or threw.
\<close>
theorem invoke_outcome:
  "case task_invoke f t of (t', log, escaped) \<Rightarrow>
     (cancelled t \<longrightarrow> t' = t\<lparr>state := CANCELLED\<rparr> \<and> log = [] \<and> \<not> escaped) \<and>
     (\<not> cancelled t \<longrightarrow>
        escaped = (fst (f (t\<lparr>state := RUNNING\<rparr>)) = ThrowsOther) \<and>
        (\<not> escaped \<longrightarrow> state t' = COMPLETED) \<and>
        (length log = (case fst (f (t\<lparr>state := RUNNING\<rparr>)) of ThrowsStd _ \<Rightarrow> 1 | _ \<Rightarrow> 0)))"
  by (auto simp: task_invoke_def call_function_def split: prod.splits fn_outcome.splits)

text \<open>
  Cancellation is sticky for the scheduler's purposes: after \<open>cancel\<close>, \<open>run\<close> does
  nothing, \<open>invoke\<close> does not call the function, and both halves of \<open>yield\<close> throw.
\<close>
theorem cancel_stops_task:
  "task_run f now (cancel t) = (cancel t, [], False) \<and>
   task_invoke f (cancel t) = (cancel t, [], False) \<and>
   yield_before now (cancel t) = Inl ''Task cancelled'' \<and>
   yield_after (cancel t) = Inl ''Task cancelled during yield''"
  by (simp add: cancel_def task_run_def task_invoke_def yield_before_def yield_after_def)

lemma save_restore_registers:
  "save_context ip cpu t = (cpu1, t1) \<Longrightarrow>
   restore_context t1 cpu2 =
     cpu2\<lparr>rax := rflags cpu, rflags := rflags cpu, rbx := rbx cpu, rbp := rbp cpu, r12 := r12 cpu,
          r13 := r13 cpu, r14 := r14 cpu, r15 := r15 cpu\<rparr>"
  by (auto simp: save_context_def restore_context_def)

text \<open>
  Saving a context and restoring it later brings back the flags and the callee-saved
  registers, but neither the stack pointer nor the instruction pointer: after
  \<open>context_switch\<close> the processor still runs on the stack of the task switched away from.
\<close>

theorem context_switch_keeps_stack:
  "context_switch ip cpu (Some from) (Some to) = (cpu', Some from', Some to') \<Longrightarrow>
     rsp cpu' = rsp cpu \<and> rip cpu' = rip cpu \<and> state from' = RUNNABLE \<and> state to' = RUNNING \<and>
     rsp (ctx from') = rsp cpu \<and> rbp cpu' = rbp (ctx to) \<and> rflags cpu' = rflags (ctx to)"
  by (auto simp: save_context_def restore_context_def set_state_def Let_def)

subsection \<open>Stack growth\<close>

lemma and_not15: "unat (y AND NOT 15) = unat y - unat y mod 16" for y :: u64
proof -
  have "y AND NOT 15 = y AND NOT (take_bit 4 y)"
  proof (rule bit_eqI)
    fix n
    have m: "(15 :: u64) = mask 4" by (simp add: mask_eq_exp_minus_1)
    show "bit (y AND NOT 15) n = bit (y AND NOT (take_bit 4 y)) n"
      unfolding m by (auto simp: bit_simps)
  qed
  also have "\<dots> = y - take_bit 4 y"
    by (rule disjunctive_diff [symmetric]) (simp add: bit_take_bit_iff)
  also have "unat \<dots> = unat y - unat (take_bit 4 y)"
    by (rule unat_sub) (metis take_bit_eq_mod word_mod_less_divisor word_le_nat_alt unat_mod_distrib mod_less_eq_dividend)
  also have "unat (take_bit 4 y) = unat y mod 16"
    by (simp add: take_bit_eq_mod unat_mod_distrib)
  finally show ?thesis .
qed

lemma align16_bounds:
  assumes "unat a + 15 < 2 ^ 64"
  shows "unat a \<le> unat (align16 a) \<and> unat (align16 a) \<le> unat a + 15 \<and> 16 dvd unat (align16 a)"
proof -
  have s: "unat (a + 15) = unat a + 15"
    using assms by (subst unat_add_lem [THEN iffD1]) auto
  have al: "unat (align16 a) = (unat a + 15) - (unat a + 15) mod 16"
    by (simp only: align16_def and_not15 s)
  have "(unat a + 15) mod 16 < 16" by simp
  moreover have "16 dvd (unat a + 15) - (unat a + 15) mod 16" by (rule dvd_minus_mod)
  ultimately show ?thesis unfolding al by (intro conjI) (assumption | linarith)+
qed

definition on_valid_stack :: "u64 \<Rightarrow> task \<Rightarrow> bool" where
  "on_valid_stack data t \<longleftrightarrow>
     unat data \<le> unat (stack_base (ctx t)) \<and>
     unat (stack_base (ctx t)) < unat (stack_top (ctx t)) \<and>
     unat (stack_top (ctx t)) < unat data + unat (stack t) \<and>
     16 dvd unat (stack_base (ctx t)) \<and> 16 dvd unat (stack_top (ctx t))"

text \<open>
  Stack growth: a growing task doubles its stack up to the 1 MB limit, and the new
  base and top are 16-byte aligned addresses inside the new stack vector, provided the
  vector does not wrap around the address space.
\<close>
theorem grow_stack_bounds:
  assumes size: "INITIAL_STACK_SIZE \<le> stack t" "stack t < MAX_STACK_SIZE" "16 dvd unat (stack t)"
    and low: "rsp (ctx t) \<le> stack_base (ctx t) + 1024"
    and mem: "unat data + 2 * unat (stack t) + 16 < 2 ^ 64"
  shows "\<exists>t'. grow_stack_if_needed data t = (True, t') \<and> on_valid_stack data t' \<and>
     unat (stack t') = min (2 * unat (stack t)) (unat MAX_STACK_SIZE)"
proof -
  have sz: "2 ^ 18 \<le> unat (stack t)" "unat (stack t) < 2 ^ 20"
    using size(1,2) by (simp_all add: INITIAL_STACK_SIZE_def MAX_STACK_SIZE_def word_le_nat_alt word_less_nat_alt)
  define n where "n = min (stack t * 2) MAX_STACK_SIZE"
  have dbl: "unat (stack t * 2) = 2 * unat (stack t)"
    using sz by (subst unat_mult_lem [THEN iffD1]) auto
  have n: "unat n = min (2 * unat (stack t)) (2 ^ 20)"
    by (simp add: n_def min_def word_le_nat_alt dbl MAX_STACK_SIZE_def)
  have nb: "2 ^ 19 \<le> unat n" "unat n \<le> 2 * unat (stack t)" "16 dvd unat n"
    using sz size(3) n by (auto simp: min_def)
  have "unat data + 15 < 2 ^ 64" using mem sz by simp
  note al = align16_bounds [OF this]
  have "unat (align16 data + n) = unat (align16 data) + unat n"
    using al nb mem sz by (subst unat_add_lem [THEN iffD1]) auto
  moreover from this nb have "unat (align16 data + n - 16) = unat (align16 data + n) - 16"
    by (subst unat_sub) (auto simp: word_le_nat_alt)
  ultimately have top: "unat (align16 data + n - 16) = unat (align16 data) + unat n - 16" by simp
  have dv: "16 dvd unat (align16 data) + unat n - 16"
    using al nb by (simp add: dvd_diff_nat)
  define t' where "t' = t\<lparr>stack := n, ctx := (ctx t)\<lparr>stack_base := align16 data,
     stack_top := align16 data + n - 16, stack_size := n, rsp := rsp (ctx t)\<rparr>,
     stack_pointer := align16 data + n - 16\<rparr>"
  have "grow_stack_if_needed data t = (True, t')"
    using size(2) low by (simp add: grow_stack_if_needed_def Let_def n_def t'_def)
  moreover have "on_valid_stack data t'"
    using al nb(1) dv by (simp add: on_valid_stack_def t'_def top) linarith
  ultimately show ?thesis using n by (simp add: t'_def MAX_STACK_SIZE_def)
qed

text \<open>
  Growing the stack never moves the saved stack pointer: the adjustment at the end of
  \<open>grow_stack_if_needed\<close> subtracts and adds the same new base, so \<open>rsp\<close> keeps its address
  in the old stack.
\<close>

theorem grow_stack_keeps_rsp: "rsp (ctx (snd (grow_stack_if_needed data t))) = rsp (ctx t)"
  by (simp add: grow_stack_if_needed_def Let_def)

definition sample_context :: exec_context where
  "sample_context =
     \<lparr>rax = 0, rbx = 1, rcx = 2, rdx = 3, rsi = 4, rdi = 5, rbp = 6, rsp = 5000, r8 = 8, r9 = 9,
      r10 = 10, r11 = 11, r12 = 12, r13 = 13, r14 = 14, r15 = 15, rip = 16, rflags = 17,
      fpu_state = [], stack_base = 4096, stack_top = 266224, stack_size = 262144\<rparr>"

definition sample_task :: task where
  "sample_task =
     new_task \<lparr>task_id = 0, state = CREATED, stack = 0, stack_pointer = 0, created_at = 0,
       last_run = 0, uctx_initialized = False, ctx = sample_context, cancelled = False,
       cleanup = False\<rparr> 1 100 4096"

theorem invoke_outcome_witness:
  "\<not> cancelled sample_task \<and>
   state (fst (task_invoke (\<lambda>t. (ThrowsStd ''boom'', t)) sample_task)) = COMPLETED \<and>
   length (fst (snd (task_invoke (\<lambda>t. (ThrowsStd ''boom'', t)) sample_task))) = 1"
proof -
  have "\<not> cancelled sample_task"
    by (simp add: sample_task_def new_task_def initialize_stack_def)
  then show ?thesis
    using invoke_outcome [where f = "\<lambda>t. (ThrowsStd ''boom'', t)" and t = sample_task]
    by (auto split: prod.splits)
qed

theorem context_switch_keeps_stack_witness:
  "\<exists>cpu' a' b'. context_switch 1 (registers.truncate sample_context) (Some sample_task) (Some sample_task)
       = (cpu', Some a', Some b') \<and> rsp cpu' = 5000 \<and> state a' = RUNNABLE \<and> state b' = RUNNING"
proof -
  let ?c = "registers.truncate sample_context"
  obtain cpu' a' b' where eq:
    "context_switch 1 ?c (Some sample_task) (Some sample_task) = (cpu', Some a', Some b')"
    by (simp add: Let_def save_context_def)
  from context_switch_keeps_stack [OF eq] eq show ?thesis
    by (auto simp: registers.truncate_def sample_context_def)
qed

theorem grow_stack_bounds_witness:
  "\<exists>t'. grow_stack_if_needed 81920 sample_task = (True, t') \<and> on_valid_stack 81920 t' \<and>
     unat (stack t') = 524288"
  using grow_stack_bounds [of sample_task 81920]
  by (simp add: sample_task_def new_task_def initialize_stack_def INITIAL_STACK_SIZE_def
      MAX_STACK_SIZE_def sample_context_def)

end
