(* ===== verification/Scheduler.thy ===== *)
theory Scheduler
  imports Task
begin

text \<open>
  \<open>TaskScheduler\<close> of \<open>src/concurrency/task.cc\<close>: worker threads with local queues, a global
  queue, work stealing and a counter of active tasks. A task function is a \<open>fiber\<close>: the
  sequence of scheduler calls and outputs it makes, ending in a return or an exception; between
  two of them it computes without touching the scheduler. The worker loop, the timer thread and
  \<open>stop\<close> are split at every point where another thread can interfere, so a run of \<open>sched_step\<close>
  is one interleaving of the workers, of \<open>spawn\<close> and \<open>cancel_task\<close> calls from outside, of the
  preemption timer and of the thread that calls \<open>stop\<close>. The lines of the log level \<open>Info\<close> and
  \<open>Debug\<close> are left out; what the tasks themselves print is kept.
\<close>

section \<open>Data\<close>

text \<open>
  \<open>YieldTo k c d\<close> calls \<open>yield_current_task\<close> and continues as \<open>k\<close> when it returns, as \<open>c\<close> when it throws at
  once and as \<open>d\<close> when it throws after the task was resumed (\<open>Throw ..\<close> for a function that does not catch).
\<close>

datatype fiber =
    Done
  | Throw string
  | YieldTo fiber fiber fiber
  | SpawnThen fiber fiber
  | CancelThen tid fiber
  | PrintThen string fiber

text \<open>
  A \<open>Task\<close> with its \<open>ucontext_t\<close>: \<open>code\<close> is what remains to run, \<open>uc_link\<close> the worker whose
  scheduler context \<open>makecontext\<close> was given (\<^term>\<open>None\<close> before the lazy initialisation).
\<close>

record fiber_task =
  obj :: task
  code :: fiber
  uc_link :: "nat option"

text \<open>Where a worker thread is in \<open>worker_loop\<close>.\<close>

datatype worker_pc =
    AtLoop               \<comment> \<open>before the test of \<open>should_stop\<close>\<close>
  | Polling              \<comment> \<open>inside the body, looking for a task\<close>
  | Fetched tid
  | InTask tid           \<comment> \<open>in the fiber of the task\<close>
  | Spawning tid tid     \<comment> \<open>the task is in \<open>spawn\<close>, before it stores the reference\<close>
  | Yielding tid         \<comment> \<open>the task is in \<open>yield\<close>, after its first test\<close>
  | Returned tid
  | Clearing
  | Exited

text \<open>The preemption thread, and the thread that calls \<open>stop\<close>.\<close>

datatype timer_pc = TimerOff | TimerTest | TimerSleep | TimerDone

datatype stop_pc = StopIdle | StopTimer | StopSignal nat | StopDone

record worker =
  local_queue :: "tid list"
  should_stop :: bool
  preemption_requested :: bool
  current_task :: "tid option"
  current_task_start_time :: "nat option"
  pc :: worker_pc

text \<open>
  A \<open>shared_ptr<Task>\<close> is the task's id, the heap of tasks is \<open>tasks\<close>. \<open>registering\<close> are the
  tasks whose \<open>spawn\<close> has queued them but not yet stored the weak reference. \<open>derailed\<close> is set
  when a finished fiber resumes the scheduler context of another worker, \<open>sout\<close> is what the tasks
  have printed.
\<close>

record sched =
  tasks :: "tid \<rightharpoonup> fiber_task"
  workers :: "worker list"
  next_task_id :: tid
  active_tasks :: u64
  global_queue :: "tid list"
  active_task_map :: "tid set"
  num_workers :: nat
  preemptive_scheduling :: bool
  time_slice :: nat
  preemption_stop :: bool
  timer :: timer_pc
  stopper :: stop_pc
  registering :: "tid list"
  derailed :: bool
  sout :: "string list"

definition upd_worker :: "nat \<Rightarrow> (worker \<Rightarrow> worker) \<Rightarrow> sched \<Rightarrow> sched" where
  "upd_worker i f s = s\<lparr>workers := (workers s)[i := f (workers s ! i)]\<rparr>"

definition upd_task :: "tid \<Rightarrow> (fiber_task \<Rightarrow> fiber_task) \<Rightarrow> sched \<Rightarrow> sched" where
  "upd_task t f s = s\<lparr>tasks := (tasks s)(t := map_option f (tasks s t))\<rparr>"

abbreviation queue_of :: "sched \<Rightarrow> nat \<Rightarrow> tid list" where
  "queue_of s i \<equiv> local_queue (workers s ! i)"

section \<open>Construction, start and stop\<close>

definition new_scheduler :: "nat \<Rightarrow> nat \<Rightarrow> sched" where
  "new_scheduler hardware_concurrency n =
     \<lparr>tasks = Map.empty, workers = [], next_task_id = 1, active_tasks = 0, global_queue = [],
      active_task_map = {},
      num_workers = (if n = 0 then (if hardware_concurrency = 0 then 4 else hardware_concurrency)
                     else n),
      preemptive_scheduling = True, time_slice = 10, preemption_stop = False,
      timer = TimerOff, stopper = StopIdle, registering = [], derailed = False, sout = []\<rparr>"

definition new_worker :: worker where
  "new_worker = \<lparr>local_queue = [], should_stop = False, preemption_requested = False,
     current_task = None, current_task_start_time = None, pc = AtLoop\<rparr>"

definition setup_preemption :: "sched \<Rightarrow> sched" where
  "setup_preemption s = s\<lparr>preemption_stop := False, timer := TimerTest\<rparr>"

definition start :: "sched \<Rightarrow> sched" where
  "start s =
     (let s1 = s\<lparr>workers := workers s @ replicate (num_workers s) new_worker\<rparr>
      in if preemptive_scheduling s then setup_preemption s1 else s1)"

text \<open>
  \<open>stop\<close>: tell the preemption thread and wait for it, set the flag of one worker after the other,
  wait for all of them, and drop the worker records with whatever their queues still hold.
\<close>

definition stop_begin :: "sched \<Rightarrow> sched" where
  "stop_begin s = s\<lparr>preemption_stop := True, stopper := StopTimer\<rparr>"

definition stop_signal :: "nat \<Rightarrow> sched \<Rightarrow> sched" where
  "stop_signal i s =
     (upd_worker i (\<lambda>w. w\<lparr>should_stop := True\<rparr>) s)\<lparr>stopper := StopSignal (Suc i)\<rparr>"

definition stop_finish :: "sched \<Rightarrow> sched" where
  "stop_finish s = s\<lparr>workers := [], stopper := StopIdle\<rparr>"

section \<open>Spawning, scheduling, cancelling\<close>

text \<open>\<open>preferred\<close> is \<^term>\<open>None\<close> for the default argument \<open>SIZE_MAX\<close>.\<close>

definition schedule_task :: "tid \<Rightarrow> nat option \<Rightarrow> sched \<Rightarrow> sched" where
  "schedule_task t preferred s =
     (case preferred of
        Some i \<Rightarrow>
          if i < length (workers s)
          then upd_worker i (\<lambda>w. w\<lparr>local_queue := queue_push t (local_queue w)\<rparr>) s
          else s\<lparr>global_queue := queue_push t (global_queue s)\<rparr>
      | None \<Rightarrow> s\<lparr>global_queue := queue_push t (global_queue s)\<rparr>)"

text \<open>
  \<open>spawn\<close> in two parts, since a worker may run the task in between: allocate the id, create
  the task, count it and queue it; then store the reference for \<open>cancel_task\<close>.
  \<open>raw\<close>, \<open>now\<close> and \<open>data\<close> are the uninitialised object, the clock and the stack address.
\<close>

definition spawn_enqueue :: "task \<Rightarrow> nat \<Rightarrow> u64 \<Rightarrow> fiber \<Rightarrow> sched \<Rightarrow> tid \<times> sched" where
  "spawn_enqueue raw now data func s =
     (let t = next_task_id s;
          x = \<lparr>obj = new_task raw t now data, code = func, uc_link = None\<rparr>;
          s1 = s\<lparr>next_task_id := t + 1, tasks := (tasks s)(t \<mapsto> x),
                 active_tasks := active_tasks s + 1\<rparr>
      in (t, (schedule_task t None s1)\<lparr>registering := t # registering s\<rparr>))"

definition spawn_register :: "tid \<Rightarrow> sched \<Rightarrow> sched" where
  "spawn_register t s =
     s\<lparr>active_task_map := insert t (active_task_map s), registering := remove1 t (registering s)\<rparr>"

definition spawn :: "task \<Rightarrow> nat \<Rightarrow> u64 \<Rightarrow> fiber \<Rightarrow> sched \<Rightarrow> tid \<times> sched" where
  "spawn raw now data func s =
     (let (t, s1) = spawn_enqueue raw now data func s in (t, spawn_register t s1))"

text \<open>The tasks a thread holds a \<open>shared_ptr\<close> to while it is in its loop body.\<close>

fun held :: "worker_pc \<Rightarrow> tid list" where
  "held (Fetched t) = [t]"
| "held (InTask t) = [t]"
| "held (Spawning t u) = [t]"
| "held (Yielding t) = [t]"
| "held (Returned t) = [t]"
| "held _ = []"

text \<open>\<open>weak_ptr::lock\<close> succeeds while a queue, a worker or a spawning thread keeps the task.\<close>

definition task_alive :: "sched \<Rightarrow> tid \<Rightarrow> bool" where
  "task_alive s t \<longleftrightarrow> t \<in> set (global_queue s) \<or> t \<in> set (registering s) \<or>
     (\<exists>w \<in> set (workers s). t \<in> set (local_queue w) \<or> t \<in> set (held (pc w)) \<or> current_task w = Some t)"

definition cancel_obj :: "fiber_task \<Rightarrow> fiber_task" where
  "cancel_obj x = x\<lparr>obj := cancel (obj x)\<rparr>"

definition cancel_task :: "tid \<Rightarrow> sched \<Rightarrow> sched" where
  "cancel_task t s =
     (if t \<in> active_task_map s then
        (let s1 = (if task_alive s t then upd_task t cancel_obj s else s)
         in s1\<lparr>active_task_map := active_task_map s1 - {t}\<rparr>)
      else s)"

section \<open>Stealing\<close>

text \<open>
  \<open>lk k\<close> is the outcome of the \<open>k\<close>-th \<open>try_to_lock\<close> of the call and \<open>draws\<close> the numbers the
  generator returns. The \<open>do .. while\<close> loop that avoids the own worker stops only when the
  generator cooperates: it is \<^term>\<open>None\<close> when it is still drawing at the end of \<open>draws\<close>.
\<close>

fun pick_target :: "nat \<Rightarrow> nat \<Rightarrow> nat list \<Rightarrow> (nat \<times> nat list) option" where
  "pick_target me n [] = None"
| "pick_target me n (d # ds) =
     (let target = d mod n in
      if target = me \<and> 1 < n then pick_target me n ds else Some (target, ds))"

definition steal_from :: "nat \<Rightarrow> sched \<Rightarrow> (tid \<times> sched) option" where
  "steal_from i s =
     (case queue_pop (queue_of s i) of
        None \<Rightarrow> None
      | Some (t, q) \<Rightarrow> Some (t, upd_worker i (\<lambda>w. w\<lparr>local_queue := q\<rparr>) s))"

definition steal_global :: "sched \<Rightarrow> (tid \<times> sched) option" where
  "steal_global s =
     (case queue_pop (global_queue s) of
        None \<Rightarrow> None
      | Some (t, q) \<Rightarrow> Some (t, s\<lparr>global_queue := q\<rparr>))"

fun steal_random ::
  "nat \<Rightarrow> (nat \<Rightarrow> bool) \<Rightarrow> nat \<Rightarrow> nat \<Rightarrow> nat list \<Rightarrow> sched \<Rightarrow> (tid \<times> sched) option option" where
  "steal_random me lk 0 k ds s = Some None"
| "steal_random me lk (Suc attempts) k ds s =
     (case pick_target me (num_workers s) ds of
        None \<Rightarrow> None
      | Some (target, ds') \<Rightarrow>
          if lk k \<and> queue_of s target \<noteq> [] then Some (steal_from target s)
          else steal_random me lk attempts (Suc k) ds' s)"

fun steal_scan :: "nat \<Rightarrow> (nat \<Rightarrow> bool) \<Rightarrow> nat \<Rightarrow> nat list \<Rightarrow> sched \<Rightarrow> (tid \<times> sched) option" where
  "steal_scan me lk k [] s = None"
| "steal_scan me lk k (i # is) s =
     (let target = (me + i) mod num_workers s in
      if lk k \<and> 1 < length (queue_of s target) then steal_from target s
      else steal_scan me lk (Suc k) is s)"

fun log2_floor :: "nat \<Rightarrow> nat" where
  "log2_floor n = (if n < 2 then 0 else Suc (log2_floor (n div 2)))"

declare log2_floor.simps [simp del]

definition max_attempts :: "sched \<Rightarrow> nat" where
  "max_attempts s = max 1 (log2_floor (num_workers s) + 1)"

definition steal_task_fast ::
  "nat \<Rightarrow> (nat \<Rightarrow> bool) \<Rightarrow> nat list \<Rightarrow> sched \<Rightarrow> (tid \<times> sched) option option" where
  "steal_task_fast me lk draws s =
     (if lk 0 \<and> global_queue s \<noteq> [] then Some (steal_global s)
      else case steal_random me lk (max_attempts s) 1 draws s of
        None \<Rightarrow> None
      | Some (Some r) \<Rightarrow> Some (Some r)
      | Some None \<Rightarrow> Some (steal_scan me lk (1 + max_attempts s) [1..<num_workers s] s))"

text \<open>\<open>steal_task\<close>, the older variant with blocking locks: one draw per attempt.\<close>

fun steal_attempts :: "nat \<Rightarrow> nat list \<Rightarrow> sched \<Rightarrow> (tid \<times> sched) option" where
  "steal_attempts me [] s = None"
| "steal_attempts me (d # ds) s =
     (let target = d mod num_workers s in
      if target = me then steal_attempts me ds s
      else if queue_of s target \<noteq> [] then steal_from target s
      else steal_attempts me ds s)"

definition steal_task :: "nat \<Rightarrow> nat list \<Rightarrow> sched \<Rightarrow> (tid \<times> sched) option" where
  "steal_task me draws s =
     (if global_queue s \<noteq> [] then steal_global s
      else steal_attempts me (take (num_workers s) draws) s)"

section \<open>The worker loop\<close>

definition set_pc :: "nat \<Rightarrow> worker_pc \<Rightarrow> sched \<Rightarrow> sched" where
  "set_pc i p s = upd_worker i (\<lambda>w. w\<lparr>pc := p\<rparr>) s"

text \<open>The front of the own queue, if the timed wait found one.\<close>

definition fetch_local :: "nat \<Rightarrow> sched \<Rightarrow> (tid \<times> sched) option" where
  "fetch_local i s =
     (case queue_pop (queue_of s i) of
        None \<Rightarrow> None
      | Some (t, q) \<Rightarrow> Some (t, upd_worker i (\<lambda>w. w\<lparr>local_queue := q\<rparr>) s))"

text \<open>Record the task as current, build its context on first use and switch to it.\<close>

definition track_current :: "nat \<Rightarrow> tid \<Rightarrow> nat \<Rightarrow> sched \<Rightarrow> sched" where
  "track_current i t now s =
     upd_worker i (\<lambda>w. w\<lparr>current_task := Some t, current_task_start_time := Some now,
       preemption_requested := False\<rparr>) s"

text \<open>
  What the switch does inside the fiber: the first one enters \<open>invoke\<close> through the trampoline,
  a later one returns from the \<open>swapcontext\<close> of \<open>yield\<close>. \<open>True\<close> means the fiber ends at once.
\<close>

definition enter_fiber :: "nat \<Rightarrow> fiber_task \<Rightarrow> bool \<times> fiber_task" where
  "enter_fiber i x =
     (if \<not> uctx_initialized (obj x) then
        (let x1 = x\<lparr>obj := (obj x)\<lparr>uctx_initialized := True\<rparr>, uc_link := Some i\<rparr> in
         if cancelled (obj x1) then (True, x1\<lparr>obj := set_state CANCELLED (obj x1)\<rparr>)
         else (False, x1\<lparr>obj := set_state RUNNING (obj x1)\<rparr>))
      else
        (case code x of
           YieldTo k c d \<Rightarrow>
             (case yield_after (obj x) of Inl e \<Rightarrow> (False, x\<lparr>code := d\<rparr>) | Inr _ \<Rightarrow> (False, x\<lparr>code := k\<rparr>))
         | _ \<Rightarrow> (False, x)))"

text \<open>A finished fiber continues at its \<open>uc_link\<close>, whichever worker runs it.\<close>

definition leave_fiber :: "nat \<Rightarrow> tid \<Rightarrow> sched \<Rightarrow> sched" where
  "leave_fiber i t s =
     (case tasks s t of
        Some x \<Rightarrow> if uc_link x = Some i then set_pc i (Returned t) s else s\<lparr>derailed := True\<rparr>
      | None \<Rightarrow> s)"

text \<open>The end of \<open>invoke\<close>, after a return or with the line that reports an exception.\<close>

definition complete_fiber :: "nat \<Rightarrow> tid \<Rightarrow> string list \<Rightarrow> sched \<Rightarrow> sched" where
  "complete_fiber i t log s =
     leave_fiber i t (upd_task t (\<lambda>x. x\<lparr>obj := set_state COMPLETED (obj x)\<rparr>)
       (s\<lparr>sout := sout s @ log\<rparr>))"

text \<open>After the switch back: requeue a \<open>RUNNABLE\<close> task, count any other one as gone.\<close>

definition after_switch :: "nat \<Rightarrow> tid \<Rightarrow> sched \<Rightarrow> sched" where
  "after_switch i t s =
     (case tasks s t of
        None \<Rightarrow> s
      | Some x \<Rightarrow>
          set_pc i Clearing
            (if state (obj x) = RUNNABLE
             then upd_worker i (\<lambda>w. w\<lparr>local_queue := queue_push t (local_queue w)\<rparr>) s
             else s\<lparr>active_tasks := active_tasks s - 1\<rparr>))"

definition clear_current :: "nat \<Rightarrow> sched \<Rightarrow> sched" where
  "clear_current i s =
     upd_worker i (\<lambda>w. w\<lparr>current_task := None, current_task_start_time := None, pc := AtLoop\<rparr>) s"

text \<open>The preemption timer only sets a flag on workers whose task exceeds the time slice.\<close>

definition preempt_long_running_tasks :: "nat \<Rightarrow> sched \<Rightarrow> sched" where
  "preempt_long_running_tasks now s =
     s\<lparr>workers := map (\<lambda>w.
         case (current_task w, current_task_start_time w) of
           (Some t, Some st) \<Rightarrow>
             if int now - int st > int (time_slice s) then w\<lparr>preemption_requested := True\<rparr> else w
         | _ \<Rightarrow> w) (workers s)\<rparr>"

definition timer_test :: "sched \<Rightarrow> sched" where
  "timer_test s = s\<lparr>timer := (if preemption_stop s then TimerDone else TimerSleep)\<rparr>"

definition wait_all_returns :: "sched \<Rightarrow> bool" where
  "wait_all_returns s \<longleftrightarrow> active_tasks s = 0"

definition get_active_task_count :: "sched \<Rightarrow> u64" where
  "get_active_task_count s = active_tasks s"

definition set_preemptive :: "bool \<Rightarrow> sched \<Rightarrow> sched" where
  "set_preemptive enabled s = s\<lparr>preemptive_scheduling := enabled\<rparr>"

definition set_time_slice :: "nat \<Rightarrow> sched \<Rightarrow> sched" where
  "set_time_slice ms s = s\<lparr>time_slice := ms\<rparr>"

definition begin_task :: "nat \<Rightarrow> tid \<Rightarrow> nat \<Rightarrow> sched \<Rightarrow> sched" where
  "begin_task i t now s =
     (case tasks s t of
        None \<Rightarrow> s
      | Some x \<Rightarrow>
          (case enter_fiber i x of
             (ends, x') \<Rightarrow>
               (let s1 = upd_task t (\<lambda>_. x') (track_current i t now s)
                in if ends then leave_fiber i t s1 else set_pc i (InTask t) s1)))"

definition set_code :: "tid \<Rightarrow> fiber \<Rightarrow> sched \<Rightarrow> sched" where
  "set_code t k s = upd_task t (\<lambda>x. x\<lparr>code := k\<rparr>) s"

definition yield_task :: "nat \<Rightarrow> tid \<Rightarrow> nat \<Rightarrow> sched \<Rightarrow> sched" where
  "yield_task i t now s =
     set_pc i (Returned t) (upd_task t (\<lambda>x. x\<lparr>obj := yield_commit now (obj x)\<rparr>) s)"

text \<open>
  \<open>yield_current_task\<close>: the worker whose thread calls it (\<^term>\<open>None\<close> for any other thread) yields
  its current task; without one nothing happens. \<open>Inl\<close> is the exception of a cancelled task.
\<close>

definition yield_current_task :: "nat option \<Rightarrow> nat \<Rightarrow> sched \<Rightarrow> string + sched" where
  "yield_current_task thread now s =
     (case thread of
        None \<Rightarrow> Inr s
      | Some i \<Rightarrow>
         (case current_task (workers s ! i) of
            None \<Rightarrow> Inr s
          | Some t \<Rightarrow>
             (case tasks s t of
                None \<Rightarrow> Inr s
              | Some x \<Rightarrow>
                 (case yield_before now (obj x) of
                    Inl e \<Rightarrow> Inl e
                  | Inr y \<Rightarrow> Inr (yield_task i t now s)))))"

section \<open>Interleavings\<close>

datatype sched_event =
    ESpawn tid | ERegister tid | ECancel tid
  | EPoll nat | EFetch nat tid | ESteal nat tid | EIdle nat | EBegin nat tid
  | EFinish nat tid | EThrow nat tid | EPrint nat tid
  | EYieldThrow nat tid | EYieldCheck nat tid | EYield nat tid
  | ETaskSpawn nat tid | ETaskRegister nat tid | ETaskCancel nat tid
  | EAfter nat tid | EClear nat | EExit nat
  | ETimer | EPreempt | EStop | EStopTimer | EStopSignal nat | EStopped

abbreviation at :: "sched \<Rightarrow> nat \<Rightarrow> worker_pc \<Rightarrow> bool" where
  "at s i p \<equiv> i < length (workers s) \<and> pc (workers s ! i) = p"

abbreviation runs :: "sched \<Rightarrow> nat \<Rightarrow> tid \<Rightarrow> fiber_task \<Rightarrow> bool" where
  "runs s i t x \<equiv> at s i (InTask t) \<and> tasks s t = Some x"

text \<open>\<open>spawn\<close> of a task is finished by the worker that runs it.\<close>

definition spawning :: "sched \<Rightarrow> tid \<Rightarrow> bool" where
  "spawning s u \<longleftrightarrow> (\<exists>w \<in> set (workers s). case pc w of Spawning t v \<Rightarrow> v = u | _ \<Rightarrow> False)"

definition all_exited :: "sched \<Rightarrow> bool" where
  "all_exited s \<longleftrightarrow> (\<forall>w \<in> set (workers s). pc w = Exited)"

inductive sched_act :: "sched \<Rightarrow> sched_event \<Rightarrow> sched \<Rightarrow> bool" where
  act_spawn: "spawn_enqueue raw now data f s = (t, s') \<Longrightarrow> sched_act s (ESpawn t) s'"
| act_register: "t \<in> set (registering s) \<Longrightarrow> \<not> spawning s t \<Longrightarrow>
     sched_act s (ERegister t) (spawn_register t s)"
| act_cancel: "sched_act s (ECancel t) (cancel_task t s)"
| act_poll: "at s i AtLoop \<Longrightarrow> \<not> should_stop (workers s ! i) \<Longrightarrow>
     sched_act s (EPoll i) (set_pc i Polling s)"
| act_exit: "at s i AtLoop \<Longrightarrow> should_stop (workers s ! i) \<Longrightarrow>
     sched_act s (EExit i) (set_pc i Exited s)"
| act_fetch: "at s i Polling \<Longrightarrow> fetch_local i s = Some (t, s') \<Longrightarrow>
     sched_act s (EFetch i t) (set_pc i (Fetched t) s')"
| act_steal: "at s i Polling \<Longrightarrow> fetch_local i s = None \<Longrightarrow>
     steal_task_fast i lk draws s = Some (Some (t, s')) \<Longrightarrow>
     sched_act s (ESteal i t) (set_pc i (Fetched t) s')"
| act_idle: "at s i Polling \<Longrightarrow> fetch_local i s = None \<Longrightarrow>
     steal_task_fast i lk draws s = Some None \<Longrightarrow> sched_act s (EIdle i) (set_pc i AtLoop s)"
| act_begin: "at s i (Fetched t) \<Longrightarrow> sched_act s (EBegin i t) (begin_task i t now s)"
| act_finish: "runs s i t x \<Longrightarrow> code x = Done \<Longrightarrow> sched_act s (EFinish i t) (complete_fiber i t [] s)"
| act_throw: "runs s i t x \<Longrightarrow> code x = Throw m \<Longrightarrow>
     sched_act s (EThrow i t) (complete_fiber i t [task_exception_log (obj x) m] s)"
| act_print: "runs s i t x \<Longrightarrow> code x = PrintThen m k \<Longrightarrow>
     sched_act s (EPrint i t) (set_code t k (s\<lparr>sout := sout s @ [m]\<rparr>))"
| act_yield_throw: "runs s i t x \<Longrightarrow> code x = YieldTo k c d \<Longrightarrow> yield_before now (obj x) = Inl e \<Longrightarrow>
     sched_act s (EYieldThrow i t) (set_code t c s)"
| act_yield_check: "runs s i t x \<Longrightarrow> code x = YieldTo k c d \<Longrightarrow> yield_before now (obj x) = Inr y \<Longrightarrow>
     sched_act s (EYieldCheck i t) (set_pc i (Yielding t) s)"
| act_yield: "at s i (Yielding t) \<Longrightarrow> sched_act s (EYield i t) (yield_task i t now s)"
| act_task_spawn: "runs s i t x \<Longrightarrow> code x = SpawnThen f k \<Longrightarrow>
     spawn_enqueue raw now data f s = (u, s') \<Longrightarrow>
     sched_act s (ETaskSpawn i u) (set_pc i (Spawning t u) (set_code t k s'))"
| act_task_register: "at s i (Spawning t u) \<Longrightarrow>
     sched_act s (ETaskRegister i u) (set_pc i (InTask t) (spawn_register u s))"
| act_task_cancel: "runs s i t x \<Longrightarrow> code x = CancelThen u k \<Longrightarrow>
     sched_act s (ETaskCancel i u) (set_code t k (cancel_task u s))"
| act_after: "at s i (Returned t) \<Longrightarrow> sched_act s (EAfter i t) (after_switch i t s)"
| act_clear: "at s i Clearing \<Longrightarrow> sched_act s (EClear i) (clear_current i s)"
| act_timer: "timer s = TimerTest \<Longrightarrow> sched_act s ETimer (timer_test s)"
| act_preempt: "timer s = TimerSleep \<Longrightarrow>
     sched_act s EPreempt ((preempt_long_running_tasks now s)\<lparr>timer := TimerTest\<rparr>)"
| act_stop: "stopper s = StopIdle \<Longrightarrow> sched_act s EStop (stop_begin s)"
| act_stop_timer: "stopper s = StopTimer \<Longrightarrow> timer s = TimerOff \<or> timer s = TimerDone \<Longrightarrow>
     sched_act s EStopTimer (s\<lparr>stopper := StopSignal 0\<rparr>)"
| act_stop_signal: "stopper s = StopSignal i \<Longrightarrow> i < length (workers s) \<Longrightarrow>
     sched_act s (EStopSignal i) (stop_signal i s)"
| act_stopped: "stopper s = StopSignal i \<Longrightarrow> length (workers s) \<le> i \<Longrightarrow> all_exited s \<Longrightarrow>
     sched_act s EStopped (s\<lparr>stopper := StopDone\<rparr>)"

text \<open>Once a fiber has returned into another worker's context nothing is known any more.\<close>

definition sched_step :: "sched \<Rightarrow> sched_event \<Rightarrow> sched \<Rightarrow> bool" where
  "sched_step s e s' \<longleftrightarrow> \<not> derailed s \<and> sched_act s e s'"

section \<open>Conservation of tasks\<close>

definition wtasks :: "worker \<Rightarrow> tid multiset" where
  "wtasks w = mset (local_queue w) + mset (held (pc w))"

text \<open>The live tasks: queued somewhere or held by a worker, with multiplicity.\<close>

definition live :: "sched \<Rightarrow> tid multiset" where
  "live s = mset (global_queue s) + (\<Sum>w\<leftarrow>workers s. wtasks w)"

definition finished :: "task_state \<Rightarrow> bool" where
  "finished st \<longleftrightarrow> st = COMPLETED \<or> st = CANCELLED"

definition returned :: "sched \<Rightarrow> tid set" where
  "returned s = {t. \<exists>w \<in> set (workers s). pc w = Returned t}"

definition sched_inv :: "sched \<Rightarrow> bool" where
  "sched_inv s \<longleftrightarrow>
     num_workers s = length (workers s) \<and> 1 \<le> next_task_id s \<and>
     (\<forall>t. count (live s) t \<le> 1) \<and>
     active_tasks s = of_nat (size (live s)) \<and>
     dom (tasks s) = {1..<next_task_id s} \<and>
     set_mset (live s) \<subseteq> {1..<next_task_id s} \<and>
     (\<forall>t x. tasks s t = Some x \<longrightarrow> t \<notin># live s \<longrightarrow> finished (state (obj x))) \<and>
     (\<forall>t x. t \<in> returned s \<longrightarrow> tasks s t = Some x \<longrightarrow>
        finished (state (obj x)) \<or> state (obj x) = RUNNABLE)"

lemma sum_list_update_add:
  "i < length xs \<Longrightarrow> (\<Sum>x\<leftarrow>xs[i := y]. g x) + g (xs ! i) = (\<Sum>x\<leftarrow>xs. g x) + (g y :: 'b :: comm_monoid_add)"
  by (induction xs arbitrary: i) (auto split: nat.split simp: add_ac)

lemma live_upd_worker:
  "i < length (workers s) \<Longrightarrow>
     live (upd_worker i f s) + wtasks (workers s ! i) = live s + wtasks (f (workers s ! i))"
  using sum_list_update_add [of i "workers s" wtasks "f (workers s ! i)"]
  by (simp add: live_def upd_worker_def add.assoc)

lemma live_upd_worker_same:
  assumes "wtasks (f (workers s ! i)) = wtasks (workers s ! i)"
  shows "live (upd_worker i f s) = live s"
proof (cases "i < length (workers s)")
  case True
  with live_upd_worker [OF True, of f] assms show ?thesis by simp
next
  case False
  then show ?thesis by (simp add: live_def upd_worker_def list_update_beyond)
qed

lemma upd_frame [sched_simps]:
  "tasks (upd_worker i f s) = tasks s" "length (workers (upd_worker i f s)) = length (workers s)"
  "active_tasks (upd_worker i f s) = active_tasks s" "num_workers (upd_worker i f s) = num_workers s"
  "next_task_id (upd_worker i f s) = next_task_id s" "derailed (upd_worker i f s) = derailed s"
  "active_tasks (upd_task t g s) = active_tasks s" "num_workers (upd_task t g s) = num_workers s"
  "next_task_id (upd_task t g s) = next_task_id s" "workers (upd_task t g s) = workers s"
  "tasks (upd_task t g s) = (tasks s)(t := map_option g (tasks s t))"
  "live (upd_task t g s) = live s" "returned (upd_task t g s) = returned s"
  by (simp_all add: upd_worker_def upd_task_def live_def returned_def)

lemma live_frame [sched_simps]:
  "live (s\<lparr>sout := l\<rparr>) = live s" "live (s\<lparr>timer := tp\<rparr>) = live s" "live (s\<lparr>stopper := sp\<rparr>) = live s"
  "returned (s\<lparr>sout := l\<rparr>) = returned s" "returned (s\<lparr>timer := tp\<rparr>) = returned s"
  "returned (s\<lparr>stopper := sp\<rparr>) = returned s"
  "live (s\<lparr>derailed := b\<rparr>) = live s" "live (s\<lparr>active_tasks := n\<rparr>) = live s"
  "live (s\<lparr>active_task_map := m\<rparr>) = live s" "live (s\<lparr>registering := r\<rparr>) = live s"
  "returned (s\<lparr>derailed := b\<rparr>) = returned s" "returned (s\<lparr>active_tasks := n\<rparr>) = returned s"
  "returned (s\<lparr>active_task_map := m\<rparr>) = returned s" "returned (s\<lparr>registering := r\<rparr>) = returned s"
  by (simp_all add: live_def returned_def)

lemma live_set_pc:
  assumes "i < length (workers s)"
  shows "live (set_pc i p s) + mset (held (pc (workers s ! i))) = live s + mset (held p)"
  using live_upd_worker [OF assms, of "\<lambda>w. w\<lparr>pc := p\<rparr>"]
  by (simp add: set_pc_def wtasks_def add_ac)

lemma in_set_upd_worker:
  "w \<in> set (workers (upd_worker i f s)) \<Longrightarrow> w \<in> set (workers s) \<or> w = f (workers s ! i)"
  using set_update_subset_insert [of "workers s" i "f (workers s ! i)"]
  by (auto simp: upd_worker_def)

lemma returned_upd_worker:
  assumes "\<And>w. pc (f w) = pc w"
  shows "returned (upd_worker i f s) \<subseteq> returned s"
proof (cases "i < length (workers s)")
  case True
  then show ?thesis
    using assms nth_mem [OF True] by (auto simp: returned_def dest!: in_set_upd_worker)
qed (simp add: returned_def upd_worker_def list_update_beyond)

lemma returned_set_pc: "returned (set_pc i p s) \<subseteq> returned s \<union> {t. p = Returned t}"
  by (auto simp: returned_def set_pc_def dest!: in_set_upd_worker)

lemma held_live: "i < length (workers s) \<Longrightarrow> t \<in> set (held (pc (workers s ! i))) \<Longrightarrow> t \<in># live s"
  by (auto simp: live_def wtasks_def in_set_conv_nth intro!: bexI [of _ "workers s ! i"])

lemma returned_live: "t \<in> returned s \<Longrightarrow> t \<in># live s"
  unfolding returned_def using held_live by (force simp: in_set_conv_nth)

text \<open>No task is in the hands of two workers.\<close>

lemma held_unique:
  assumes "\<forall>t. count (live s) t \<le> 1" and ij: "i < length (workers s)" "j < length (workers s)"
    and t: "t \<in> set (held (pc (workers s ! i)))" "t \<in> set (held (pc (workers s ! j)))"
  shows "i = j"
proof (rule ccontr)
  assume "i \<noteq> j"
  let ?f = "\<lambda>k. count (wtasks (workers s ! k)) t"
  have "count (\<Sum>w\<leftarrow>workers s. wtasks w) t = (\<Sum>k<length (workers s). ?f k)"
    by (simp add: sum_list_sum_nth count_sum atLeast0LessThan)
  moreover have "(\<Sum>k<length (workers s). ?f k) \<ge> (\<Sum>k\<in>{i, j}. ?f k)"
    using ij by (intro sum_mono2) auto
  moreover have "(\<Sum>k\<in>{i, j}. ?f k) \<ge> 2"
  proof -
    have "?f i \<ge> 1" "?f j \<ge> 1" using t by (simp_all add: wtasks_def Suc_le_eq)
    then have "?f i + ?f j \<ge> 2" by linarith
    with \<open>i \<noteq> j\<close> show ?thesis by simp
  qed
  ultimately have "count (live s) t \<ge> 2" by (simp add: live_def)
  with assms(1) show False by (metis Suc_1 not_less_eq_eq)
qed

lemma sched_invI_same:
  assumes "sched_inv s"
    and "live s' = live s" "active_tasks s' = active_tasks s" "next_task_id s' = next_task_id s"
      "num_workers s' = num_workers s" "length (workers s') = length (workers s)"
    and "dom (tasks s') = dom (tasks s)"
    and "\<And>t x x'. tasks s t = Some x \<Longrightarrow> tasks s' t = Some x' \<Longrightarrow> t \<notin># live s \<Longrightarrow>
          finished (state (obj x)) \<Longrightarrow> finished (state (obj x'))"
    and "\<And>t x'. t \<in> returned s' \<Longrightarrow> tasks s' t = Some x' \<Longrightarrow>
          finished (state (obj x')) \<or> state (obj x') = RUNNABLE"
  shows "sched_inv s'"
proof -
  have "finished (state (obj x'))" if "tasks s' t = Some x'" "t \<notin># live s" for t x'
  proof -
    from that(1) assms(7) obtain x where "tasks s t = Some x" by blast
    moreover from this assms(1) that(2) have "finished (state (obj x))" by (auto simp: sched_inv_def)
    ultimately show ?thesis using assms(8) that by blast
  qed
  then show ?thesis using assms(1-7,9) unfolding sched_inv_def by simp
qed

lemma sched_inv_returned:
  "sched_inv s \<Longrightarrow> t \<in> returned s \<Longrightarrow> tasks s t = Some x \<Longrightarrow>
     finished (state (obj x)) \<or> state (obj x) = RUNNABLE"
  by (auto simp: sched_inv_def)

end
