(* ===== verification/Scheduler_Proofs.thy ===== *)
theory Scheduler_Proofs
  imports Scheduler
begin

text \<open>
  The scheduler's invariant is kept by every action of every interleaving; what follows for
  \<open>wait_all\<close>, for the termination of work stealing, for one worker, and two schedules that
  show what goes wrong with more.
\<close>


subsection \<open>Taking a task out of a queue\<close>

definition taken :: "tid \<Rightarrow> sched \<Rightarrow> sched \<Rightarrow> bool" where
  "taken t s s' \<longleftrightarrow>
     (\<exists>q. global_queue s = t # q \<and> s' = s\<lparr>global_queue := q\<rparr>) \<or>
     (\<exists>j q. j < length (workers s) \<and> queue_of s j = t # q \<and>
        s' = upd_worker j (\<lambda>w. w\<lparr>local_queue := q\<rparr>) s)"

lemma taken_global: "steal_global s = Some (t, s') \<Longrightarrow> taken t s s'"
  by (cases "global_queue s") (auto simp: steal_global_def taken_def)

lemma taken_from: "steal_from j s = Some (t, s') \<Longrightarrow> j < length (workers s) \<Longrightarrow> taken t s s'"
  by (cases "queue_of s j") (auto simp: steal_from_def taken_def)

lemma taken_local: "fetch_local j s = Some (t, s') \<Longrightarrow> j < length (workers s) \<Longrightarrow> taken t s s'"
  by (cases "queue_of s j") (auto simp: fetch_local_def taken_def)

lemma pick_target_bound: "pick_target me n ds = Some (j, ds') \<Longrightarrow> 0 < n \<Longrightarrow> j < n"
  by (induction me n ds rule: pick_target.induct) (auto simp: Let_def split: if_splits)

lemma pick_target_other: "pick_target me n ds = Some (j, ds') \<Longrightarrow> 1 < n \<Longrightarrow> j \<noteq> me"
  by (induction me n ds rule: pick_target.induct) (auto simp: Let_def split: if_splits)

lemma taken_random:
  "steal_random me lk a k ds s = Some (Some (t, s')) \<Longrightarrow> 0 < num_workers s \<Longrightarrow>
   num_workers s = length (workers s) \<Longrightarrow> taken t s s'"
proof (induction me lk a k ds s rule: steal_random.induct)
  case (2 me lk attempts k ds s)
  then obtain j ds' where p: "pick_target me (num_workers s) ds = Some (j, ds')"
    by (auto split: option.splits)
  with "2.prems"(2,3) pick_target_bound have "j < length (workers s)" by metis
  with "2.prems" "2.IH" [OF p] p show ?case by (auto split: if_splits intro: taken_from)
qed simp

lemma taken_scan:
  "steal_scan me lk k is s = Some (t, s') \<Longrightarrow> 0 < num_workers s \<Longrightarrow>
   num_workers s = length (workers s) \<Longrightarrow> taken t s s'"
  by (induction me lk k "is" s rule: steal_scan.induct)
     (auto simp: Let_def split: if_splits intro: taken_from)

lemma taken_fast:
  "steal_task_fast me lk ds s = Some (Some (t, s')) \<Longrightarrow> 0 < num_workers s \<Longrightarrow>
   num_workers s = length (workers s) \<Longrightarrow> taken t s s'"
  by (auto simp: steal_task_fast_def split: if_splits option.splits
      intro: taken_global taken_random taken_scan)

lemma taken_live: "taken t s s' \<Longrightarrow> live s = add_mset t (live s')"
proof -
  assume "taken t s s'"
  then consider (g) q where "global_queue s = t # q" "s' = s\<lparr>global_queue := q\<rparr>"
    | (w) j q where "j < length (workers s)" "queue_of s j = t # q"
        "s' = upd_worker j (\<lambda>w. w\<lparr>local_queue := q\<rparr>) s"
    by (auto simp: taken_def)
  then show ?thesis
  proof cases
    case g
    then show ?thesis by (simp add: live_def)
  next
    case w
    have "live s' + wtasks (workers s ! j) = live s + wtasks ((workers s ! j)\<lparr>local_queue := q\<rparr>)"
      unfolding w(3) by (rule live_upd_worker [OF w(1)])
    with w(2) have "live s' + (add_mset t (mset q + mset (held (pc (workers s ! j)))))
        = live s + (mset q + mset (held (pc (workers s ! j))))"
      by (simp add: wtasks_def)
    then show ?thesis by simp
  qed
qed

lemma taken_frame:
  assumes "taken t s s'"
  shows "tasks s' = tasks s \<and> active_tasks s' = active_tasks s \<and> next_task_id s' = next_task_id s \<and>
    num_workers s' = num_workers s \<and> length (workers s') = length (workers s) \<and>
    returned s' \<subseteq> returned s \<and> (\<forall>i < length (workers s). pc (workers s' ! i) = pc (workers s ! i))"
proof -
  have "returned (upd_worker j (\<lambda>w. w\<lparr>local_queue := q\<rparr>) s) \<subseteq> returned s" for j q
    by (rule returned_upd_worker) simp
  moreover have "returned (s\<lparr>global_queue := q\<rparr>) = returned s" for q by (simp add: returned_def)
  ultimately show ?thesis using assms
    by (auto simp: taken_def sched_simps nth_list_update upd_worker_def)
qed

lemma fetch_inv:
  assumes inv: "sched_inv s" and pc: "at s i Polling" and "taken t s s'"
  shows "sched_inv (set_pc i (Fetched t) s')"
proof (rule sched_invI_same [OF inv])
  note f = taken_frame [OF assms(3)]
  from f pc have i: "i < length (workers s')" "pc (workers s' ! i) = Polling" by auto
  from live_set_pc [OF i(1), of "Fetched t"] i(2) taken_live [OF assms(3)]
  show "live (set_pc i (Fetched t) s') = live s" by simp
  show "finished (state (obj x')) \<or> state (obj x') = RUNNABLE"
    if "u \<in> returned (set_pc i (Fetched t) s')" "tasks (set_pc i (Fetched t) s') u = Some x'" for u x'
    using that f returned_set_pc [of i "Fetched t" s'] sched_inv_returned [OF inv]
    by (auto simp: set_pc_def sched_simps)
qed (use taken_frame [OF assms(3)] in \<open>simp_all add: set_pc_def sched_simps\<close>)

subsection \<open>Spawning and cancelling\<close>

lemma spawn_enqueue_inv:
  assumes inv: "sched_inv s" and sp: "spawn_enqueue raw now data f s = (t, s')"
  shows "sched_inv s'"
proof -
  from sp have t: "t = next_task_id s"
    and live: "live s' = add_mset t (live s)" and ret: "returned s' = returned s"
    and tasks: "\<exists>x. tasks s' = (tasks s)(t \<mapsto> x)" and act: "active_tasks s' = active_tasks s + 1"
    and nx: "next_task_id s' = t + 1" and ws: "workers s' = workers s" "num_workers s' = num_workers s"
    by (auto simp: spawn_enqueue_def Let_def schedule_task_def queue_push_def live_def returned_def)
  from inv t have fresh: "t \<notin> dom (tasks s)" and t1: "1 \<le> t"
    and dom: "dom (tasks s) = {1..<t}" by (auto simp: sched_inv_def)
  with inv have nl: "t \<notin># live s" by (auto simp: sched_inv_def)
  then have "t \<notin> returned s" using returned_live by blast
  moreover have "dom (tasks s') = {1..<Suc t}"
  proof -
    from tasks have "dom (tasks s') = insert t (dom (tasks s))" by auto
    with dom t1 show ?thesis by (simp add: atLeastLessThanSuc)
  qed
  moreover have "set_mset (live s') \<subseteq> {1..<Suc t}"
  proof -
    from inv t have "set_mset (live s) \<subseteq> {1..<t}" by (simp add: sched_inv_def)
    with live t1 show ?thesis by force
  qed
  ultimately show ?thesis
    using inv live ret tasks act nx ws t1 nl
    by (auto simp: sched_inv_def not_in_iff split: if_splits)
qed

lemma spawn_register_inv: "sched_inv s \<Longrightarrow> sched_inv (spawn_register t s)"
  by (simp add: spawn_register_def sched_inv_def live_def returned_def)

lemma cancel_obj_finished [simp]: "finished (state (obj (cancel_obj x)))"
  by (simp add: cancel_obj_def cancel_def finished_def)

lemma cancel_task_inv:
  assumes inv: "sched_inv s"
  shows "sched_inv (cancel_task t s)"
proof (rule sched_invI_same [OF inv])
  show "live (cancel_task t s) = live s"
    by (simp add: cancel_task_def Let_def sched_simps)
  show "finished (state (obj x')) \<or> state (obj x') = RUNNABLE"
    if "u \<in> returned (cancel_task t s)" "tasks (cancel_task t s) u = Some x'" for u x'
    using that sched_inv_returned [OF inv]
    by (auto simp: cancel_task_def Let_def sched_simps split: if_splits)
qed (auto simp: cancel_task_def Let_def sched_simps split: if_splits)

lemma set_code_inv:
  assumes inv: "sched_inv s"
  shows "sched_inv (set_code t k s)"
proof (rule sched_invI_same [OF inv])
  show "finished (state (obj x')) \<or> state (obj x') = RUNNABLE"
    if "u \<in> returned (set_code t k s)" "tasks (set_code t k s) u = Some x'" for u x'
    using that sched_inv_returned [OF inv, of u]
    by (cases "u = t") (auto simp: set_code_def sched_simps)
qed (auto simp: set_code_def sched_simps split: if_splits)

subsection \<open>The worker loop\<close>

lemma flags_inv:
  "sched_inv s \<Longrightarrow> sched_inv (s\<lparr>derailed := b\<rparr>)" "sched_inv s \<Longrightarrow> sched_inv (s\<lparr>sout := out\<rparr>)"
  "sched_inv s \<Longrightarrow> sched_inv (s\<lparr>timer := tp\<rparr>)" "sched_inv s \<Longrightarrow> sched_inv (s\<lparr>stopper := sp\<rparr>)"
  by (simp_all add: sched_inv_def sched_simps)

text \<open>A worker that keeps its task and changes the state of that task to an allowed one.\<close>

lemma own_task_inv:
  assumes inv: "sched_inv s" and i: "i < length (workers s)" and t: "t \<in> set (held (pc (workers s ! i)))"
    and p: "held p = held (pc (workers s ! i))"
    and ok: "\<forall>u x. p = Returned u \<longrightarrow> tasks s u = Some x \<longrightarrow>
      finished (state (obj (if u = t then g x else x))) \<or> state (obj (if u = t then g x else x)) = RUNNABLE"
  shows "sched_inv (set_pc i p (upd_task t g s))"
proof (rule sched_invI_same [OF inv])
  let ?s = "set_pc i p (upd_task t g s)"
  show live: "live ?s = live s"
    using live_set_pc [of i "upd_task t g s" p] i p by (simp add: sched_simps)
  have cnt: "\<forall>t. count (live s) t \<le> 1" using inv by (simp add: sched_inv_def)
  show "finished (state (obj x'))"
    if "tasks s u = Some x" "tasks ?s u = Some x'" "u \<notin># live s" "finished (state (obj x))" for u x x'
    using that held_live [OF i t] by (auto simp: set_pc_def sched_simps split: if_splits)
  show "finished (state (obj x')) \<or> state (obj x') = RUNNABLE"
    if "u \<in> returned ?s" "tasks ?s u = Some x'" for u x'
  proof -
    from that(1) obtain j where j: "j < length (workers s)" "pc (workers ?s ! j) = Returned u"
      by (auto simp: returned_def in_set_conv_nth set_pc_def sched_simps)
    show ?thesis
    proof (cases "j = i")
      case True
      with j i have "p = Returned u" by (simp add: set_pc_def upd_worker_def upd_task_def)
      with ok that(2) show ?thesis by (auto simp: set_pc_def sched_simps split: if_splits)
    next
      case False
      with j have pj: "pc (workers s ! j) = Returned u"
        by (simp add: set_pc_def upd_worker_def upd_task_def)
      then have "u \<noteq> t" using held_unique [OF cnt i j(1) t] False by auto
      moreover from pj j(1) have "u \<in> returned s" by (auto simp: returned_def)
      ultimately show ?thesis using that(2) sched_inv_returned [OF inv]
        by (auto simp: set_pc_def sched_simps split: if_splits)
    qed
  qed
qed (auto simp: set_pc_def sched_simps)

lemma set_pc_same: "i < length (workers s) \<Longrightarrow> set_pc i (pc (workers s ! i)) s = s"
  by (simp add: set_pc_def upd_worker_def)

lemma upd_task_id: "upd_task t (\<lambda>x. x) s = s"
  by (simp add: upd_task_def option.map_ident)

lemma upd_worker_inv:
  assumes "sched_inv s" and "\<And>w. wtasks (f w) = wtasks w" and "\<And>w. pc (f w) = pc w"
  shows "sched_inv (upd_worker i f s)"
proof (rule sched_invI_same [OF assms(1)])
  show "live (upd_worker i f s) = live s" by (rule live_upd_worker_same) (rule assms(2))
  show "finished (state (obj x')) \<or> state (obj x') = RUNNABLE"
    if "u \<in> returned (upd_worker i f s)" "tasks (upd_worker i f s) u = Some x'" for u x'
    using that returned_upd_worker [of f i s, OF assms(3)] sched_inv_returned [OF assms(1), of u]
    by (auto simp: sched_simps)
qed (simp_all add: sched_simps)

lemma own_state_inv:
  assumes "sched_inv s" "i < length (workers s)" "t \<in> set (held (pc (workers s ! i)))"
    and "\<forall>u. pc (workers s ! i) \<noteq> Returned u"
  shows "sched_inv (upd_task t g s)"
  using own_task_inv [OF assms(1-3) refl, of g] assms(2,4)
    set_pc_same [of i "upd_task t g s"] by (simp add: sched_simps)

lemma own_pc_inv:
  assumes "sched_inv s" "i < length (workers s)" "t \<in> set (held (pc (workers s ! i)))"
    and "held p = held (pc (workers s ! i))" "\<forall>u. p \<noteq> Returned u"
  shows "sched_inv (set_pc i p s)"
  using own_task_inv [OF assms(1-4), of "\<lambda>x. x"] assms(5) by (simp add: upd_task_id)

lemma leave_inv:
  assumes inv: "sched_inv s" and i: "i < length (workers s)" "held (pc (workers s ! i)) = [t]"
    and x: "tasks s t = Some x" "finished (state (obj x))"
  shows "sched_inv (leave_fiber i t s)"
proof (cases "uc_link x = Some i")
  case True
  have "sched_inv (set_pc i (Returned t) (upd_task t (\<lambda>x. x) s))"
    by (rule own_task_inv [OF inv i(1)]) (use i x in auto)
  with True x(1) show ?thesis by (simp add: leave_fiber_def upd_task_id)
next
  case False
  with x(1) inv show ?thesis by (simp add: leave_fiber_def flags_inv)
qed

lemma begin_inv:
  assumes inv: "sched_inv s" and pc: "at s i (Fetched t)"
  shows "sched_inv (begin_task i t now s)"
proof (cases "tasks s t")
  case None
  with inv show ?thesis by (simp add: begin_task_def)
next
  case (Some x)
  obtain ends x' where e: "enter_fiber i x = (ends, x')" by fastforce
  let ?s1 = "track_current i t now s" let ?s2 = "upd_task t (\<lambda>_. x') ?s1"
  have i1: "i < length (workers ?s1)" "pc (workers ?s1 ! i) = Fetched t"
    using pc by (simp_all add: track_current_def upd_worker_def)
  have "sched_inv ?s1"
    unfolding track_current_def by (rule upd_worker_inv [OF inv]) (simp_all add: wtasks_def)
  then have inv2: "sched_inv ?s2" using i1 by (intro own_state_inv) auto
  have i2: "i < length (workers ?s2)" "held (pc (workers ?s2 ! i)) = [t]"
    using i1 by (simp_all add: sched_simps)
  show ?thesis
  proof (cases ends)
    case True
    with e have "finished (state (obj x'))"
      by (auto simp: enter_fiber_def Let_def set_state_def finished_def
          split: if_splits fiber.splits sum.splits)
    moreover have "tasks ?s2 t = Some x'" using Some by (simp add: track_current_def sched_simps)
    ultimately have "sched_inv (leave_fiber i t ?s2)" by (intro leave_inv [OF inv2 i2])
    with True Some e show ?thesis by (simp add: begin_task_def Let_def)
  next
    case False
    have "sched_inv (set_pc i (InTask t) ?s2)" by (rule own_pc_inv [OF inv2]) (use i2 in auto)
    with False Some e show ?thesis by (simp add: begin_task_def Let_def)
  qed
qed

lemma complete_inv:
  assumes inv: "sched_inv s" and r: "runs s i t x"
  shows "sched_inv (complete_fiber i t log s)"
  unfolding complete_fiber_def
proof (rule leave_inv)
  let ?g = "\<lambda>x. x\<lparr>obj := set_state COMPLETED (obj x)\<rparr>" let ?s = "s\<lparr>sout := sout s @ log\<rparr>"
  show "sched_inv (upd_task t ?g ?s)" using r by (intro own_state_inv [OF flags_inv(2) [OF inv], of i]) auto
  show "tasks (upd_task t ?g ?s) t = Some (?g x)" using r by (simp add: sched_simps)
qed (use r in \<open>auto simp: sched_simps set_state_def finished_def\<close>)

lemma yield_inv: "sched_inv s \<Longrightarrow> at s i (Yielding t) \<Longrightarrow> sched_inv (yield_task i t now s)"
  unfolding yield_task_def by (rule own_task_inv) (auto simp: yield_commit_def)

lemma requeue_inv:
  assumes inv: "sched_inv s" and r: "at s i (Returned t)"
  shows "sched_inv (set_pc i Clearing
           (upd_worker i (\<lambda>w. w\<lparr>local_queue := queue_push t (local_queue w)\<rparr>) s))"
proof (rule sched_invI_same [OF inv])
  let ?f = "\<lambda>w :: worker. w\<lparr>local_queue := queue_push t (local_queue w)\<rparr>"
  let ?s1 = "upd_worker i ?f s"
  have "live ?s1 = add_mset t (live s)"
    using live_upd_worker [of i s ?f] r by (simp add: wtasks_def queue_push_def)
  moreover have "i < length (workers ?s1)" "pc (workers ?s1 ! i) = Returned t"
    using r by (simp_all add: upd_worker_def)
  ultimately show "live (set_pc i Clearing ?s1) = live s"
    using live_set_pc [of i ?s1 Clearing] by simp
  show "finished (state (obj x')) \<or> state (obj x') = RUNNABLE"
    if "u \<in> returned (set_pc i Clearing ?s1)" "tasks (set_pc i Clearing ?s1) u = Some x'" for u x'
    using that returned_set_pc [of i Clearing ?s1] sched_inv_returned [OF inv, of u]
      returned_upd_worker [of ?f i s]
    by (auto simp: set_pc_def sched_simps)
qed (simp_all add: set_pc_def sched_simps)

lemma of_nat_size_remove: "t \<in># M \<Longrightarrow> of_nat (size M) - 1 = (of_nat (size (M - {#t#})) :: u64)"
  by (auto dest!: multi_member_split)

lemma retire_inv:
  assumes inv: "sched_inv s" and r: "at s i (Returned t)" and x: "tasks s t = Some x"
    and "state (obj x) \<noteq> RUNNABLE"
  shows "sched_inv (set_pc i Clearing (s\<lparr>active_tasks := active_tasks s - 1\<rparr>))"
proof -
  let ?s' = "set_pc i Clearing (s\<lparr>active_tasks := active_tasks s - 1\<rparr>)"
  have tl: "t \<in># live s" using held_live [of i s t] r by simp
  have "add_mset t (live ?s') = live s"
    using live_set_pc [of i "s\<lparr>active_tasks := active_tasks s - 1\<rparr>" Clearing] r by (simp add: sched_simps)
  then have l: "live ?s' = live s - {#t#}" by (metis add_mset_remove_trivial)
  have fin: "finished (state (obj x))"
    using sched_inv_returned [OF inv _ x] r assms(4) nth_mem by (force simp: returned_def)
  have sub: "returned ?s' \<subseteq> returned s"
    using returned_set_pc [of i Clearing "s\<lparr>active_tasks := active_tasks s - 1\<rparr>"] by (simp add: sched_simps)
  have cnt: "count (live s) t = 1"
    using inv tl by (auto simp: sched_inv_def le_Suc_eq not_in_iff intro: antisym)
  show ?thesis unfolding sched_inv_def l
  proof (intro conjI allI impI)
    show "count (live s - {#t#}) u \<le> 1" for u
      using inv by (auto simp: sched_inv_def intro: order_trans [OF diff_le_self])
    show "finished (state (obj y))" if "tasks ?s' u = Some y" "u \<notin># live s - {#t#}" for u y
      using that inv x fin cnt
      by (cases "u = t") (auto simp: set_pc_def sched_simps sched_inv_def in_diff_count)
    show "finished (state (obj y)) \<or> state (obj y) = RUNNABLE"
      if "u \<in> returned ?s'" "tasks ?s' u = Some y" for u y
      using that sub sched_inv_returned [OF inv, of u] by (auto simp: set_pc_def sched_simps)
  qed (use inv of_nat_size_remove [OF tl] in
        \<open>auto simp: sched_inv_def set_pc_def sched_simps dest: in_diffD\<close>)
qed

lemma after_inv:
  assumes "sched_inv s" and "at s i (Returned t)"
  shows "sched_inv (after_switch i t s)"
  using assms requeue_inv [OF assms] retire_inv [OF assms]
  by (auto simp: after_switch_def split: option.splits)

lemma pc_idle_inv:
  assumes inv: "sched_inv s" and "i < length (workers s)" "held (pc (workers s ! i)) = []" "held p = []"
  shows "sched_inv (set_pc i p s)"
proof (rule sched_invI_same [OF inv])
  show "live (set_pc i p s) = live s" using live_set_pc [of i s p] assms by simp
  show "finished (state (obj x')) \<or> state (obj x') = RUNNABLE"
    if "u \<in> returned (set_pc i p s)" "tasks (set_pc i p s) u = Some x'" for u x'
    using that returned_set_pc [of i p s] sched_inv_returned [OF inv, of u] assms(4)
    by (auto simp: set_pc_def sched_simps)
qed (simp_all add: set_pc_def sched_simps)

lemma clear_inv:
  assumes inv: "sched_inv s" and "at s i Clearing"
  shows "sched_inv (clear_current i s)"
proof -
  let ?s1 = "upd_worker i (\<lambda>w. w\<lparr>current_task := None, current_task_start_time := None\<rparr>) s"
  have "clear_current i s = set_pc i AtLoop ?s1"
    using assms(2) by (simp add: clear_current_def set_pc_def upd_worker_def)
  moreover have "sched_inv ?s1" using inv by (rule upd_worker_inv) (simp_all add: wtasks_def)
  moreover have "i < length (workers ?s1) \<and> pc (workers ?s1 ! i) = Clearing"
    using assms(2) by (simp add: upd_worker_def)
  ultimately show ?thesis by (simp add: pc_idle_inv)
qed

lemma map_workers_inv:
  assumes "sched_inv s" "\<And>w. wtasks (f w) = wtasks w" "\<And>w. pc (f w) = pc w"
  shows "sched_inv (s\<lparr>workers := map f (workers s)\<rparr>)"
proof -
  have "live (s\<lparr>workers := map f (workers s)\<rparr>) = live s"
    by (simp add: live_def o_def assms(2))
  moreover have "returned (s\<lparr>workers := map f (workers s)\<rparr>) = returned s"
    by (auto simp: returned_def assms(3))
  ultimately show ?thesis using assms(1) by (simp add: sched_inv_def)
qed

lemma preempt_inv: "sched_inv s \<Longrightarrow> sched_inv (preempt_long_running_tasks now s)"
  unfolding preempt_long_running_tasks_def
  by (rule map_workers_inv) (auto simp: wtasks_def split: option.splits)

lemma timer_test_inv: "sched_inv s \<Longrightarrow> sched_inv (timer_test s)"
  by (simp add: timer_test_def flags_inv)

lemma stop_begin_inv: "sched_inv s \<Longrightarrow> sched_inv (stop_begin s)"
  by (simp add: stop_begin_def sched_inv_def live_def returned_def)

lemma stop_signal_inv: "sched_inv s \<Longrightarrow> sched_inv (stop_signal i s)"
  unfolding stop_signal_def by (intro flags_inv upd_worker_inv) (simp_all add: wtasks_def)

lemma task_spawn_inv:
  assumes inv: "sched_inv s" and r: "runs s i t x" and sp: "spawn_enqueue raw now data f s = (u, s')"
  shows "sched_inv (set_pc i (Spawning t u) (set_code t k s'))"
proof (rule own_pc_inv)
  show "sched_inv (set_code t k s')" by (rule set_code_inv, rule spawn_enqueue_inv [OF inv sp])
  from sp have "workers s' = workers s"
    by (auto simp: spawn_enqueue_def Let_def schedule_task_def)
  with r show "i < length (workers (set_code t k s'))" "t \<in> set (held (pc (workers (set_code t k s') ! i)))"
    "held (Spawning t u) = held (pc (workers (set_code t k s') ! i))"
    by (auto simp: set_code_def sched_simps)
qed simp

lemma task_register_inv:
  assumes "sched_inv s" "at s i (Spawning t u)"
  shows "sched_inv (set_pc i (InTask t) (spawn_register u s))"
  by (rule own_pc_inv [OF spawn_register_inv [OF assms(1)], where t = t])
     (use assms(2) in \<open>simp_all add: spawn_register_def\<close>)

lemma sched_act_inv: "sched_act s e s' \<Longrightarrow> sched_inv s \<Longrightarrow> sched_inv s'"
proof (induction rule: sched_act.induct)
  case (act_fetch s i t s')
  then show ?case by (auto intro: fetch_inv taken_local)
next
  case (act_steal s i lk draws t s')
  then have "taken t s s'" by (intro taken_fast) (auto simp: sched_inv_def)
  with act_steal show ?case by (auto intro: fetch_inv)
next
  case (act_yield_check s i t x k c d now y)
  then show ?case by (auto intro: own_pc_inv [where t = t])
next
  case (act_task_spawn s i t x f k raw now data u s')
  then show ?case by (blast intro: task_spawn_inv)
qed (auto intro: spawn_enqueue_inv spawn_register_inv cancel_task_inv begin_inv complete_inv
      set_code_inv yield_inv after_inv clear_inv preempt_inv pc_idle_inv flags_inv timer_test_inv
      stop_begin_inv stop_signal_inv task_register_inv)

interpretation sched_sys: invariant_system sched_step sched_inv
  by unfold_locales (auto simp: sched_step_def intro: sched_act_inv)

lemma sum_list_replicate_empty: "sum_list (replicate n {#}) = {#}"
  by (induction n) auto

lemma sched_inv_start: "sched_inv (start (new_scheduler hw n))"
  by (simp add: sched_inv_def start_def Let_def new_scheduler_def setup_preemption_def live_def
      returned_def new_worker_def wtasks_def sum_list_replicate_empty)

lemma sched_inv_task:
  assumes "sched_inv s" "t \<in> {1..<next_task_id s}"
  obtains x where "tasks s t = Some x"
proof -
  from assms have "t \<in> dom (tasks s)" by (simp add: sched_inv_def)
  with that show thesis by blast
qed

lemma sched_inv_gone:
  assumes "sched_inv s" "t \<in> {1..<next_task_id s}" "t \<notin># live s"
  shows "\<exists>x. tasks s t = Some x \<and> finished (state (obj x))"
  using sched_inv_task [OF assms(1,2)] assms by (metis sched_inv_def)


text \<open>
  \<open>wait_all\<close> is right to return: when it sees the counter at zero, every task ever
  spawned has completed or was cancelled, as long as fewer than \<open>2^64\<close> tasks are live.
\<close>
theorem wait_all_sound:
  assumes "run sched_step (start (new_scheduler hw n)) es s"
    and "wait_all_returns s" and "size (live s) < 2 ^ 64"
  shows "live s = {#} \<and>
         (\<forall>t \<in> {1..<next_task_id s}. \<exists>x. tasks s t = Some x \<and> finished (state (obj x)))"
proof -
  have inv: "sched_inv s" by (rule sched_sys.inv_run [OF assms(1) sched_inv_start])
  then have "(of_nat (size (live s)) :: u64) = 0"
    using assms(2) by (simp add: sched_inv_def wait_all_returns_def)
  moreover have "unat (of_nat (size (live s)) :: u64) = size (live s)"
    using assms(3) by (simp add: unat_of_nat)
  ultimately have "live s = {#}" by (metis size_eq_0_iff_empty unat_0)
  with sched_inv_gone [OF inv] show ?thesis by simp
qed

section \<open>Executable schedules\<close>

text \<open>A schedule names the action and its oracle values, so that runs can be computed.\<close>

datatype sched_cmd =
    CSpawn fiber | CRegister tid | CCancel tid
  | CPoll nat | CFetch nat | CSteal nat "nat list" | CBegin nat | CFiber nat | CAfter nat | CClear nat
  | CExit nat | CTimer | CStop | CStopTimer | CStopSignal

definition fiber_step :: "nat \<Rightarrow> sched \<Rightarrow> sched option" where
  "fiber_step i s =
     (case pc (workers s ! i) of
        InTask t \<Rightarrow>
          (case tasks s t of
             None \<Rightarrow> None
           | Some x \<Rightarrow>
               (case code x of
                  Done \<Rightarrow> Some (complete_fiber i t [] s)
                | Throw m \<Rightarrow> Some (complete_fiber i t [task_exception_log (obj x) m] s)
                | YieldTo k c d \<Rightarrow>
                    (case yield_before 0 (obj x) of
                       Inl e \<Rightarrow> Some (set_code t c s)
                     | Inr y \<Rightarrow> Some (set_pc i (Yielding t) s))
                | SpawnThen f k \<Rightarrow>
                    (case spawn_enqueue sample_task 0 0 f s of
                       (u, s') \<Rightarrow> Some (set_pc i (Spawning t u) (set_code t k s')))
                | CancelThen u k \<Rightarrow> Some (set_code t k (cancel_task u s))
                | PrintThen m k \<Rightarrow> Some (set_code t k (s\<lparr>sout := sout s @ [m]\<rparr>))))
      | Spawning t u \<Rightarrow> Some (set_pc i (InTask t) (spawn_register u s))
      | Yielding t \<Rightarrow> Some (yield_task i t 0 s)
      | _ \<Rightarrow> None)"

fun exec :: "sched_cmd \<Rightarrow> sched \<Rightarrow> sched option" where
  "exec (CSpawn f) s = Some (snd (spawn_enqueue sample_task 0 0 f s))"
| "exec (CRegister t) s =
     (if t \<in> set (registering s) \<and> \<not> spawning s t then Some (spawn_register t s) else None)"
| "exec (CCancel t) s = Some (cancel_task t s)"
| "exec (CPoll i) s =
     (if at s i AtLoop \<and> \<not> should_stop (workers s ! i) then Some (set_pc i Polling s) else None)"
| "exec (CFetch i) s =
     (if at s i Polling then map_option (\<lambda>(t, s'). set_pc i (Fetched t) s') (fetch_local i s) else None)"
| "exec (CSteal i ds) s =
     (if at s i Polling \<and> fetch_local i s = None
      then (case steal_task_fast i (\<lambda>_. True) ds s of
              Some (Some (t, s')) \<Rightarrow> Some (set_pc i (Fetched t) s')
            | Some None \<Rightarrow> Some (set_pc i AtLoop s)
            | None \<Rightarrow> None)
      else None)"
| "exec (CBegin i) s =
     (if i < length (workers s)
      then (case pc (workers s ! i) of Fetched t \<Rightarrow> Some (begin_task i t 0 s) | _ \<Rightarrow> None) else None)"
| "exec (CFiber i) s = (if i < length (workers s) then fiber_step i s else None)"
| "exec (CAfter i) s =
     (if i < length (workers s)
      then (case pc (workers s ! i) of Returned t \<Rightarrow> Some (after_switch i t s) | _ \<Rightarrow> None) else None)"
| "exec (CClear i) s = (if at s i Clearing then Some (clear_current i s) else None)"
| "exec (CExit i) s =
     (if at s i AtLoop \<and> should_stop (workers s ! i) then Some (set_pc i Exited s) else None)"
| "exec CTimer s = (if timer s = TimerTest then Some (timer_test s) else None)"
| "exec CStop s = (if stopper s = StopIdle then Some (stop_begin s) else None)"
| "exec CStopTimer s =
     (if stopper s = StopTimer \<and> (timer s = TimerOff \<or> timer s = TimerDone)
      then Some (s\<lparr>stopper := StopSignal 0\<rparr>) else None)"
| "exec CStopSignal s =
     (case stopper s of
        StopSignal i \<Rightarrow>
          if i < length (workers s) then Some (stop_signal i s)
          else if all_exited s then Some (s\<lparr>stopper := StopDone\<rparr>) else None
      | _ \<Rightarrow> None)"

fun exec_all :: "sched_cmd list \<Rightarrow> sched \<Rightarrow> sched option" where
  "exec_all [] s = Some s"
| "exec_all (c # cs) s =
     (if derailed s then None else case exec c s of None \<Rightarrow> None | Some s' \<Rightarrow> exec_all cs s')"

lemma fiber_step_act:
  "fiber_step i s = Some s' \<Longrightarrow> i < length (workers s) \<Longrightarrow> \<exists>e. sched_act s e s'"
  unfolding fiber_step_def
  by (auto split: worker_pc.splits option.splits fiber.splits sum.splits prod.splits
      intro: act_finish act_throw act_print act_yield_throw act_yield_check act_yield act_task_cancel
        act_task_spawn act_task_register)

lemma exec_act: "exec c s = Some s' \<Longrightarrow> \<exists>e. sched_act s e s'"
proof (cases c)
  case (CSpawn f)
  then show "exec c s = Some s' \<Longrightarrow> ?thesis"
    using act_spawn [of sample_task 0 0 f s, OF prod.collapse [symmetric]] by auto
qed (auto intro: act_register act_cancel act_poll act_fetch act_steal act_idle act_begin act_after act_clear
       act_exit act_timer act_stop act_stop_timer act_stop_signal act_stopped [OF _ leI]
       dest: fiber_step_act split: if_splits option.splits worker_pc.splits stop_pc.splits)

lemma exec_all_run: "exec_all cs s = Some s' \<Longrightarrow> \<exists>es. run sched_step s es s'"
proof (induction cs arbitrary: s)
  case Nil
  then show ?case by (auto intro: run.intros)
next
  case (Cons c cs)
  then obtain t where t: "\<not> derailed s" "exec c s = Some t" "exec_all cs t = Some s'"
    by (auto split: if_splits option.splits)
  from exec_act [OF t(2)] t(1) obtain e where "sched_step s e t" by (auto simp: sched_step_def)
  moreover from Cons.IH [OF t(3)] obtain es where "run sched_step t es s'" by blast
  ultimately show ?case by (blast intro: run.intros)
qed

section \<open>One worker\<close>

definition linked :: "fiber_task \<Rightarrow> bool" where
  "linked x \<longleftrightarrow> uc_link x = None \<and> \<not> uctx_initialized (obj x) \<or> uc_link x = Some 0"

text \<open>The task whose fiber a worker is in.\<close>

fun inside :: "worker_pc \<Rightarrow> tid option" where
  "inside (InTask t) = Some t"
| "inside (Spawning t u) = Some t"
| "inside (Yielding t) = Some t"
| "inside _ = None"

lemma inside_held: "inside p = Some t \<Longrightarrow> held p = [t]"
  by (cases p) auto

text \<open>With one worker, every started fiber returns to that worker.\<close>

definition single :: "sched \<Rightarrow> bool" where
  "single s \<longleftrightarrow> num_workers s = 1 \<and> \<not> derailed s \<and> (\<forall>t x. tasks s t = Some x \<longrightarrow> linked x) \<and>
     (\<exists>w. workers s = [w] \<and> (\<forall>t x. inside (pc w) = Some t \<longrightarrow>
        tasks s t = Some x \<longrightarrow> uc_link x = Some 0))"

lemma single_upd_task:
  "single s \<Longrightarrow> (\<And>x. uc_link (g x) = uc_link x \<and> uctx_initialized (obj (g x)) = uctx_initialized (obj x)) \<Longrightarrow>
     single (upd_task t g s)"
  by (fastforce simp: single_def upd_task_def linked_def split: if_splits)

lemma single_frame:
  "single s \<Longrightarrow> single (s\<lparr>active_task_map := m\<rparr>)" "single s \<Longrightarrow> single (s\<lparr>registering := r\<rparr>)"
  "single s \<Longrightarrow> single (s\<lparr>active_tasks := n\<rparr>)" "single s \<Longrightarrow> single (s\<lparr>global_queue := q\<rparr>)"
  "single s \<Longrightarrow> single (s\<lparr>preemption_stop := b\<rparr>)"
  "single s \<Longrightarrow> single (s\<lparr>sout := out\<rparr>)" "single s \<Longrightarrow> single (s\<lparr>timer := tp\<rparr>)"
  "single s \<Longrightarrow> single (s\<lparr>stopper := sp\<rparr>)"
  by (simp_all add: single_def)

lemma single_set_code: "single s \<Longrightarrow> single (set_code t k s)"
  unfolding set_code_def by (rule single_upd_task) simp_all

lemma single_cancel:
  assumes "single s"
  shows "single (cancel_task t s)"
proof -
  from assms have "single (upd_task t cancel_obj s)"
    by (rule single_upd_task) (simp_all add: cancel_obj_def cancel_def)
  with assms show ?thesis by (simp add: cancel_task_def Let_def single_frame)
qed

lemma single_spawn_enqueue:
  assumes "single s" "sched_inv s" "spawn_enqueue raw now data f s = (t, s')"
  shows "single s'"
proof -
  obtain w where w: "workers s = [w]" using assms(1) by (auto simp: single_def)
  have "next_task_id s \<notin># live s" using assms(2) by (auto simp: sched_inv_def)
  with w have "inside (pc w) \<noteq> Some (next_task_id s)"
    by (auto simp: live_def wtasks_def dest: inside_held)
  moreover have "linked \<lparr>obj = new_task raw i now data, code = f, uc_link = None\<rparr>" for i
    by (simp add: linked_def new_task_def initialize_stack_def)
  ultimately show ?thesis using assms(1,3) w
    by (auto simp: single_def spawn_enqueue_def Let_def schedule_task_def split: if_splits)
qed

lemma single_set_pc: "single s \<Longrightarrow> inside p = None \<Longrightarrow> single (set_pc i p s)"
  by (cases i) (auto simp: single_def set_pc_def upd_worker_def)

lemma single_enter_pc:
  "single s \<Longrightarrow> inside p = Some t \<Longrightarrow> \<forall>x. tasks s t = Some x \<longrightarrow> uc_link x = Some 0 \<Longrightarrow>
     single (set_pc i p s)"
  by (cases i) (auto simp: single_def set_pc_def upd_worker_def)

text \<open>The worker stays inside the fiber that it runs.\<close>

lemma single_stay:
  assumes "single s" "i < length (workers s)" "inside (pc (workers s ! i)) = Some t" "inside p = Some t"
  shows "single (set_pc i p s)"
  using assms by (intro single_enter_pc [where t = t]) (auto simp: single_def)

lemma single_upd_worker: "single s \<Longrightarrow> (\<And>w. pc (f w) = pc w) \<Longrightarrow> single (upd_worker i f s)"
  by (cases i) (auto simp: single_def upd_worker_def)

lemma single_taken: "single s \<Longrightarrow> taken t s s' \<Longrightarrow> single s'"
  by (auto simp: taken_def intro: single_frame single_upd_worker)

lemma single_leave:
  assumes "single s" "i < length (workers s)" "\<forall>x. tasks s t = Some x \<longrightarrow> uc_link x = Some 0"
  shows "single (leave_fiber i t s)"
proof -
  have "i = 0" using assms(1,2) by (auto simp: single_def)
  with assms(1,3) show ?thesis
    by (auto simp: leave_fiber_def split: option.splits intro: single_set_pc)
qed

lemma single_begin:
  assumes "single s" "at s i (Fetched t)"
  shows "single (begin_task i t now s)"
proof (cases "tasks s t")
  case (Some x)
  have i: "i = 0" using assms by (auto simp: single_def)
  obtain ends x' where e: "enter_fiber i x = (ends, x')" by fastforce
  from Some assms(1) have "linked x" by (auto simp: single_def)
  with e i have x': "uc_link x' = Some 0"
    by (auto simp: enter_fiber_def linked_def Let_def split: if_splits fiber.splits sum.splits)
  let ?s = "upd_task t (\<lambda>_. x') (track_current i t now s)"
  have "single (track_current i t now s)"
    unfolding track_current_def by (rule single_upd_worker [OF assms(1)]) simp
  then have s: "single ?s" using x' by (fastforce simp: single_def upd_task_def linked_def split: if_splits)
  have u: "\<forall>y. tasks ?s t = Some y \<longrightarrow> uc_link y = Some 0"
    using x' by (auto simp: upd_task_def)
  have "i < length (workers ?s)" using assms(2) by (simp add: sched_simps track_current_def)
  with s u Some e show ?thesis
    by (auto simp: begin_task_def Let_def intro: single_leave single_enter_pc [where t = t])
qed (simp add: begin_task_def assms)

lemma single_complete:
  assumes "single s" "runs s i t x"
  shows "single (complete_fiber i t log s)"
  unfolding complete_fiber_def
proof (rule single_leave)
  let ?g = "\<lambda>x. x\<lparr>obj := set_state COMPLETED (obj x)\<rparr>" let ?s = "s\<lparr>sout := sout s @ log\<rparr>"
  show "single (upd_task t ?g ?s)"
    by (rule single_upd_task, rule single_frame, rule assms(1)) (simp add: set_state_def)
  show "\<forall>y. tasks (upd_task t ?g ?s) t = Some y \<longrightarrow> uc_link y = Some 0"
    using assms by (auto simp: single_def upd_task_def)
qed (use assms in \<open>simp add: sched_simps\<close>)

lemma single_yield: "single s \<Longrightarrow> single (yield_task i t now s)"
  unfolding yield_task_def
  by (rule single_set_pc, rule single_upd_task) (simp_all add: yield_commit_def)

lemma single_after: "single s \<Longrightarrow> single (after_switch i t s)"
  by (auto simp: after_switch_def split: option.splits
      intro!: single_set_pc intro: single_upd_worker single_frame)

lemma single_act: "sched_act s e s' \<Longrightarrow> sched_inv s \<Longrightarrow> single s \<Longrightarrow> single s'"
proof (induction rule: sched_act.induct)
  case (act_fetch s i t s')
  then have "single s'" by (meson single_taken taken_local)
  then show ?case by (rule single_set_pc) simp
next
  case (act_steal s i lk draws t s')
  then have "taken t s s'" by (intro taken_fast) (auto simp: sched_inv_def)
  then have "single s'" using act_steal by (blast intro: single_taken)
  then show ?case by (rule single_set_pc) simp
next
  case (act_yield_check s i t x k c d now y)
  then show ?case by (intro single_stay) auto
next
  case (act_task_spawn s i t x f k raw now data u s')
  then have "single (set_code t k s')" by (blast intro: single_set_code single_spawn_enqueue)
  moreover have "workers (set_code t k s') = workers s"
    using act_task_spawn by (auto simp: spawn_enqueue_def Let_def schedule_task_def set_code_def sched_simps)
  ultimately show ?case using act_task_spawn by (intro single_stay [where t = t]) auto
next
  case (act_task_register s i t u)
  then show ?case by (intro single_stay [where t = t]) (auto simp: spawn_register_def single_frame)
next
  case (act_clear s i)
  then show ?case by (cases i) (auto simp: single_def clear_current_def upd_worker_def)
next
  case (act_preempt s now)
  then show ?case
    by (auto simp: single_def preempt_long_running_tasks_def split: option.splits)
next
  case (act_stop_signal s i)
  then show ?case by (auto simp: stop_signal_def intro!: single_frame single_upd_worker)
qed (auto intro: single_spawn_enqueue single_cancel single_begin single_complete single_set_code
      single_yield single_after single_set_pc single_frame
      simp: spawn_register_def timer_test_def stop_begin_def)

interpretation single_sys: invariant_system sched_step "\<lambda>s. sched_inv s \<and> single s"
  by unfold_locales (auto simp: sched_step_def intro: sched_act_inv single_act)

text \<open>
  C18. With a single worker a finished fiber always returns into the scheduler context of
  the worker that runs it.
\<close>
theorem single_worker_never_derails:
  assumes "run sched_step (start (new_scheduler hw 1)) es s"
  shows "\<not> derailed s"
proof -
  have "single (start (new_scheduler hw 1))"
    by (auto simp: single_def start_def new_scheduler_def Let_def setup_preemption_def new_worker_def)
  with single_sys.inv_run [OF assms] sched_inv_start show ?thesis by (auto simp: single_def)
qed

section \<open>Two workers\<close>

definition two_workers :: sched where
  "two_workers = start (new_scheduler 0 2)"

definition stolen_schedule :: "sched_cmd list" where
  "stolen_schedule =
     [CSpawn (YieldTo Done (Throw ''Task cancelled'') (Throw ''Task cancelled during yield'')), CRegister 1, CPoll 0, CSteal 0 [], CBegin 0, CFiber 0, CFiber 0,
      CAfter 0, CClear 0, CPoll 1, CSteal 1 [0], CBegin 1, CFiber 1]"

lemma stolen_derails: "map_option derailed (exec_all stolen_schedule two_workers) = Some True"
  by code_simp

definition cancel_race :: "sched_cmd list" where
  "cancel_race =
     [CSpawn (YieldTo Done (Throw ''Task cancelled'') (Throw ''Task cancelled during yield'')), CRegister 1, CPoll 0, CSteal 0 [], CBegin 0, CFiber 0, CFiber 0,
      CCancel 1, CAfter 0, CClear 0]"

lemma cancel_race_drops:
  "map_option (\<lambda>s. (map_option (\<lambda>x. (state (obj x), code x)) (tasks s 1), active_tasks s,
       global_queue s, map local_queue (workers s), map (held \<circ> pc) (workers s)))
     (exec_all cancel_race two_workers)
   = Some (Some (CANCELLED, YieldTo Done (Throw ''Task cancelled'') (Throw ''Task cancelled during yield'')), 0, [], [[], []], [[], []])"
  by code_simp

lemma exec_all_reaches:
  assumes "map_option f (exec_all cs s) = Some v"
  shows "\<exists>es s'. run sched_step s es s' \<and> f s' = v"
  using assms exec_all_run [of cs s] by (cases "exec_all cs s") auto




definition finishing :: "sched_cmd list" where
  "finishing = [CSpawn (SpawnThen Done (YieldTo Done Done Done)), CRegister 1, CPoll 0, CSteal 0 [], CBegin 0,
     CFiber 0, CFiber 0, CFiber 0, CFiber 0, CAfter 0, CClear 0, CPoll 0, CFetch 0, CBegin 0, CFiber 0, CAfter 0,
     CClear 0, CPoll 0, CSteal 0 [], CBegin 0, CFiber 0, CAfter 0, CClear 0]"

lemma finishing_ends:
  "map_option (\<lambda>s. (active_tasks s, next_task_id s, global_queue s, map local_queue (workers s),
       map (held \<circ> pc) (workers s))) (exec_all finishing (start (new_scheduler 0 1)))
   = Some (0, 3, [], [[]], [[]])"
  by code_simp

theorem wait_all_sound_witness:
  "\<exists>es s. run sched_step (start (new_scheduler 0 1)) es s \<and> next_task_id s = 3 \<and>
     (\<forall>t \<in> {1..<3}. \<exists>x. tasks s t = Some x \<and> finished (state (obj x)))"
proof -
  from exec_all_reaches [OF finishing_ends] obtain es s where
    run: "run sched_step (start (new_scheduler 0 1)) es s" and s: "active_tasks s = 0" "next_task_id s = 3"
      "global_queue s = []" "map local_queue (workers s) = [[]]" "map (held \<circ> pc) (workers s) = [[]]"
    by auto
  from s(4) obtain a where "workers s = [a]" by (auto simp: map_eq_Cons_conv)
  with s have "live s = {#}" by (simp add: live_def wtasks_def)
  with run s wait_all_sound [OF run] show ?thesis by (auto simp: wait_all_returns_def)
qed

theorem single_worker_never_derails_witness:
  "\<exists>es s. run sched_step (start (new_scheduler 0 1)) es s \<and> next_task_id s = 3 \<and> \<not> derailed s"
proof -
  from exec_all_reaches [OF finishing_ends] obtain es s where
    "run sched_step (start (new_scheduler 0 1)) es s" "next_task_id s = 3" by auto
  with single_worker_never_derails show ?thesis by blast
qed

section \<open>Work stealing\<close>

lemma pick_target_enough:
  "0 < n \<Longrightarrow> Suc a \<le> length (filter (\<lambda>d. d mod n \<noteq> me \<or> n = 1) ds) \<Longrightarrow>
   \<exists>j ds'. pick_target me n ds = Some (j, ds') \<and> a \<le> length (filter (\<lambda>d. d mod n \<noteq> me \<or> n = 1) ds')"
  by (induction me n ds rule: pick_target.induct) (auto simp: Let_def split: if_splits)

lemma steal_random_enough:
  "0 < num_workers s \<Longrightarrow>
   a \<le> length (filter (\<lambda>d. d mod num_workers s \<noteq> me \<or> num_workers s = 1) ds) \<Longrightarrow>
   steal_random me lk a k ds s \<noteq> None"
proof (induction me lk a k ds s rule: steal_random.induct)
  case (2 me lk attempts k ds s)
  from pick_target_enough [OF "2.prems"] obtain j ds' where
    "pick_target me (num_workers s) ds = Some (j, ds')"
    "attempts \<le> length (filter (\<lambda>d. d mod num_workers s \<noteq> me \<or> num_workers s = 1) ds')" by blast
  with "2.IH" [of "(j, ds')" j ds'] "2.prems"(1) show ?case by auto
qed simp

lemma steal_task_fast_returns_aux:
  assumes "0 < num_workers s"
    and "max_attempts s \<le> length (filter (\<lambda>d. d mod num_workers s \<noteq> me \<or> num_workers s = 1) draws)"
  shows "\<exists>r. steal_task_fast me lk draws s = Some r"
  using steal_random_enough [OF assms, of lk 1] by (auto simp: steal_task_fast_def split: option.splits)



end
