(* ===== verification/Scheduler_Work.thy ===== *)
theory Scheduler_Work
  imports Scheduler_Proofs
begin

text \<open>
  What a step of one worker leaves alone, the invariant on workers and their fibers, and the measure
  that adds up what every queued, held or running task still has to do: each useful step of a worker
  lowers it, no other step raises it, and no worker is ever stuck.
\<close>

section \<open>Who moves, and what the others keep\<close>

fun worker_of :: "sched_event \<Rightarrow> nat option" where
  "worker_of (EPoll i) = Some i" | "worker_of (EExit i) = Some i" | "worker_of (EFetch i t) = Some i"
| "worker_of (ESteal i t) = Some i" | "worker_of (EIdle i) = Some i" | "worker_of (EBegin i t) = Some i"
| "worker_of (EFinish i t) = Some i" | "worker_of (EThrow i t) = Some i" | "worker_of (EPrint i t) = Some i"
| "worker_of (EYieldThrow i t) = Some i" | "worker_of (EYieldCheck i t) = Some i"
| "worker_of (EYield i t) = Some i" | "worker_of (ETaskSpawn i t) = Some i"
| "worker_of (ETaskRegister i t) = Some i" | "worker_of (ETaskCancel i t) = Some i"
| "worker_of (EAfter i t) = Some i" | "worker_of (EClear i) = Some i" | "worker_of _ = None"

text \<open>The steps of a worker other than looking for a task and leaving.\<close>

definition useful :: "sched_event \<Rightarrow> bool" where
  "useful e \<longleftrightarrow> (case e of EPoll i \<Rightarrow> False | EIdle i \<Rightarrow> False | EExit i \<Rightarrow> False | _ \<Rightarrow> worker_of e \<noteq> None)"

fun external_spawn :: "sched_event \<Rightarrow> bool" where
  "external_spawn (ESpawn t) = True"
| "external_spawn _ = False"

text \<open>What the measure reads of a task.\<close>

definition same_code :: "fiber_task \<Rightarrow> fiber_task \<Rightarrow> bool" where
  "same_code x x' \<longleftrightarrow> code x' = code x \<and> uctx_initialized (obj x') = uctx_initialized (obj x)
     \<and> (finished (state (obj x)) \<longrightarrow> finished (state (obj x')))"

lemma same_code_refl [simp]: "same_code x x"
  by (simp add: same_code_def)

definition keeps :: "tid \<Rightarrow> sched \<Rightarrow> sched \<Rightarrow> bool" where
  "keeps u s s' \<longleftrightarrow> (\<forall>x. tasks s u = Some x \<longrightarrow> (\<exists>x'. tasks s' u = Some x' \<and> same_code x x'))"

lemma keeps_same: "tasks s' u = tasks s u \<Longrightarrow> keeps u s s'"
  by (simp add: keeps_def)

lemma keeps_trans: "keeps u s s1 \<Longrightarrow> keeps u s1 s2 \<Longrightarrow> keeps u s s2"
  by (fastforce simp: keeps_def same_code_def)

lemma keeps_cancel: "keeps u s (cancel_task t s)"
  by (auto simp: keeps_def cancel_task_def Let_def upd_task_def cancel_obj_def cancel_def same_code_def finished_def)

lemma tasks_frame [sched_simps]:
  "tasks (set_pc i p s) = tasks s" "tasks (track_current i t now s) = tasks s"
  "tasks (clear_current i s) = tasks s" "tasks (timer_test s) = tasks s" "tasks (stop_begin s) = tasks s"
  "tasks (stop_signal i s) = tasks s" "tasks (preempt_long_running_tasks now s) = tasks s"
  "tasks (spawn_register t s) = tasks s" "tasks (leave_fiber i t s) = tasks s" "tasks (after_switch i t s) = tasks s"
  by (simp_all add: set_pc_def track_current_def clear_current_def timer_test_def stop_begin_def
      stop_signal_def preempt_long_running_tasks_def spawn_register_def leave_fiber_def after_switch_def
      sched_simps split: option.split)

lemma keeps_upd: "u \<noteq> t \<Longrightarrow> tasks s' = tasks (upd_task t g s) \<Longrightarrow> keeps u s s'"
  by (intro keeps_same) (simp add: sched_simps)

lemma keeps_begin: "u \<noteq> t \<Longrightarrow> keeps u s (begin_task i t now s)"
  by (intro keeps_same)
     (auto simp: begin_task_def Let_def sched_simps split: option.splits prod.splits)

lemma sched_inv_fresh: "sched_inv s \<Longrightarrow> tasks s (next_task_id s) = None"
  unfolding sched_inv_def by (metis atLeastLessThan_iff domIff less_irrefl)

lemma spawn_tasks:
  "spawn_enqueue raw now data f s = (t, s') \<Longrightarrow>
   tasks s' = (tasks s)(t \<mapsto> \<lparr>obj = new_task raw t now data, code = f, uc_link = None\<rparr>) \<and> t = next_task_id s
   \<and> workers s' = workers s \<and> global_queue s' = global_queue s @ [t]"
  by (auto simp: spawn_enqueue_def Let_def schedule_task_def queue_push_def)

lemma keeps_spawn: "sched_inv s \<Longrightarrow> spawn_enqueue raw now data f s = (t, s') \<Longrightarrow> keeps u s s'"
  by (auto simp: keeps_def sched_inv_fresh dest!: spawn_tasks)

lemma keeps_code: "u \<noteq> t \<Longrightarrow> keeps u s s1 \<Longrightarrow> keeps u s (set_code t k s1)"
  by (erule keeps_trans) (rule keeps_upd [of u t], simp_all add: set_code_def)

lemma act_keeps:
  "sched_act s e s' \<Longrightarrow> sched_inv s \<Longrightarrow>
   \<forall>i. worker_of e = Some i \<longrightarrow> u \<notin> set (held (pc (workers s ! i))) \<Longrightarrow> keeps u s s'"
proof (induction rule: sched_act.induct)
  case (act_fetch s i t s')
  then have "taken t s s'" by (auto intro: taken_local)
  then show ?case by (auto intro!: keeps_same simp: sched_simps dest: taken_frame)
next
  case (act_steal s i lk draws t s')
  then have "taken t s s'" by (intro taken_fast) (auto simp: sched_inv_def)
  then show ?case by (auto intro!: keeps_same simp: sched_simps dest: taken_frame)
next
  case (act_task_spawn s i t x f k raw now data v s')
  then have "keeps u s (set_code t k s')" by (intro keeps_code keeps_spawn) auto
  then show ?case by (rule keeps_trans) (simp add: keeps_same sched_simps)
next
  case (act_task_cancel s i t x v k)
  then show ?case by (intro keeps_code keeps_cancel) auto
next
  case (act_print s i t x m k)
  then show ?case by (intro keeps_code keeps_same) auto
next
  case (act_yield_throw s i t x k c d now e)
  then show ?case by (intro keeps_code keeps_same) auto
next
  case (act_spawn raw now data f s t s')
  then show ?case by (intro keeps_spawn)
next
  case (act_begin s i t now)
  then show ?case by (intro keeps_begin) auto
next
  case (act_cancel s t)
  then show ?case by (intro keeps_cancel)
qed (auto intro!: keeps_same simp: sched_simps complete_fiber_def yield_task_def)

lemma workers_frame [sched_simps]:
  "workers (upd_worker i f s) = (workers s)[i := f (workers s ! i)]"
  "workers (set_pc i p s) = (workers s)[i := (workers s ! i)\<lparr>pc := p\<rparr>]"
  "workers (set_code t k s) = workers s" "workers (cancel_task t s) = workers s"
  "workers (spawn_register t s) = workers s" "workers (timer_test s) = workers s"
  "workers (stop_begin s) = workers s"
  by (simp_all add: upd_worker_def set_pc_def set_code_def upd_task_def cancel_task_def spawn_register_def
      timer_test_def stop_begin_def Let_def)

text \<open>A worker that does not move keeps its place and its current task.\<close>

definition parked :: "nat \<Rightarrow> sched \<Rightarrow> sched \<Rightarrow> bool" where
  "parked j s s' \<longleftrightarrow> pc (workers s' ! j) = pc (workers s ! j) \<and>
     current_task (workers s' ! j) = current_task (workers s ! j)"

lemma parked_taken: "taken t s s' \<Longrightarrow> j < length (workers s) \<Longrightarrow> parked j s s'"
  by (auto simp: taken_def parked_def sched_simps nth_list_update)

lemma parked_leave: "j \<noteq> i \<Longrightarrow> workers s1 = workers s \<Longrightarrow> parked j s (leave_fiber i t s1)"
  by (auto simp: leave_fiber_def parked_def sched_simps split: option.splits)

lemma parked_begin: "j \<noteq> i \<Longrightarrow> parked j s (begin_task i t now s)"
  by (auto simp: begin_task_def Let_def parked_def leave_fiber_def track_current_def sched_simps
      split: option.splits prod.splits)

lemma act_parked:
  "sched_act s e s' \<Longrightarrow> sched_inv s \<Longrightarrow> worker_of e \<noteq> Some j \<Longrightarrow> j < length (workers s) \<Longrightarrow> parked j s s'"
proof (induction rule: sched_act.induct)
  case (act_fetch s i t s')
  then have "taken t s s'" by (auto intro: taken_local)
  with act_fetch parked_taken [OF this, of j] show ?case by (auto simp: parked_def sched_simps)
next
  case (act_steal s i lk draws t s')
  then have "taken t s s'" by (intro taken_fast) (auto simp: sched_inv_def)
  with act_steal parked_taken [OF this, of j] show ?case by (auto simp: parked_def sched_simps)
next
  case (act_stop_signal s i)
  then show ?case by (auto simp: parked_def stop_signal_def sched_simps nth_list_update)
next
  case (act_preempt s now)
  then show ?case by (auto simp: parked_def preempt_long_running_tasks_def split: option.splits)
next
  case (act_finish s i t x)
  then show ?case unfolding complete_fiber_def by (intro parked_leave) (auto simp: sched_simps)
next
  case (act_throw s i t x m)
  then show ?case unfolding complete_fiber_def by (intro parked_leave) (auto simp: sched_simps)
qed (auto simp: parked_def sched_simps yield_task_def after_switch_def clear_current_def split: option.splits
     dest!: spawn_tasks intro: parked_begin [unfolded parked_def, THEN conjunct1]
       parked_begin [unfolded parked_def, THEN conjunct2])

section \<open>The worker and its fiber\<close>

text \<open>
  While a worker is inside a fiber, that task is its current one and its context has been built;
  a task that is about to suspend itself is at a call of \<open>yield\<close>.
\<close>

definition ctx_at :: "sched \<Rightarrow> worker \<Rightarrow> bool" where
  "ctx_at s w \<longleftrightarrow>
     (\<forall>t. inside (pc w) = Some t \<longrightarrow> current_task w = Some t \<and>
        (\<exists>x. tasks s t = Some x \<and> uctx_initialized (obj x) \<and>
           (pc w = Yielding t \<longrightarrow> (\<exists>k c d. code x = YieldTo k c d))))"

definition ctx_ok :: "sched \<Rightarrow> bool" where
  "ctx_ok s \<longleftrightarrow> (\<forall>i < length (workers s). ctx_at s (workers s ! i))"

lemma ctx_outside: "inside (pc w) = None \<Longrightarrow> ctx_at s w"
  by (simp add: ctx_at_def)

lemma ctx_kept:
  assumes "ctx_at s (workers s ! j)" "parked j s s'"
    and "\<And>u. u \<in> set (held (pc (workers s ! j))) \<Longrightarrow> keeps u s s'"
  shows "ctx_at s' (workers s' ! j)"
  unfolding ctx_at_def
proof (intro allI impI)
  fix t assume t: "inside (pc (workers s' ! j)) = Some t"
  with assms(2) have in_t: "inside (pc (workers s ! j)) = Some t" by (simp add: parked_def)
  with assms(1) obtain x where "current_task (workers s ! j) = Some t" "tasks s t = Some x"
    "uctx_initialized (obj x)" "pc (workers s ! j) = Yielding t \<longrightarrow> (\<exists>k c d. code x = YieldTo k c d)"
    by (auto simp: ctx_at_def)
  moreover have "keeps t s s'" using assms(3) inside_held [OF in_t] by simp
  ultimately show "current_task (workers s' ! j) = Some t \<and> (\<exists>x. tasks s' t = Some x \<and>
      uctx_initialized (obj x) \<and> (pc (workers s' ! j) = Yielding t \<longrightarrow> (\<exists>k c d. code x = YieldTo k c d)))"
    using assms(2) by (auto simp: parked_def keeps_def same_code_def)
qed

lemma act_length: "sched_act s e s' \<Longrightarrow> sched_inv s \<Longrightarrow> length (workers s') = length (workers s)"
proof (induction rule: sched_act.induct)
  case (act_fetch s i t s')
  then have "taken t s s'" by (auto intro: taken_local)
  then show ?case by (simp add: taken_frame sched_simps)
next
  case (act_steal s i lk draws t s')
  then have "taken t s s'" by (intro taken_fast) (auto simp: sched_inv_def)
  then show ?case by (simp add: taken_frame sched_simps)
qed (auto simp: complete_fiber_def yield_task_def after_switch_def clear_current_def begin_task_def
      leave_fiber_def track_current_def stop_signal_def preempt_long_running_tasks_def Let_def sched_simps
      dest!: spawn_tasks split: option.splits prod.splits)

text \<open>What the worker that moves does to its own place.\<close>

lemma enter_fiber_init: "enter_fiber i x = (ends, x') \<Longrightarrow> uctx_initialized (obj x')"
  by (auto simp: enter_fiber_def Let_def set_state_def yield_after_def split: if_splits fiber.splits sum.splits)

lemma begin_ctx:
  assumes "at s i (Fetched t)" "tasks s t = Some x"
  shows "ctx_at (begin_task i t now s) (workers (begin_task i t now s) ! i)"
proof -
  obtain ends x' where "enter_fiber i x = (ends, x')" by fastforce
  with assms enter_fiber_init [OF this] show ?thesis
    by (auto simp: begin_task_def Let_def leave_fiber_def track_current_def ctx_at_def sched_simps
        split: option.splits)
qed

lemma leave_ctx:
  "i < length (workers s) \<Longrightarrow> ctx_at s (workers s ! i) \<Longrightarrow>
   ctx_at (leave_fiber i t s) (workers (leave_fiber i t s) ! i)"
  by (auto simp: leave_fiber_def ctx_at_def sched_simps split: option.splits)

lemma upd_task_ctx:
  "ctx_at s w \<Longrightarrow> (\<And>x. uctx_initialized (obj (g x)) = uctx_initialized (obj x)) \<Longrightarrow>
   (\<And>x. \<forall>u. pc w = Yielding u \<longrightarrow> code (g x) = code x) \<Longrightarrow> ctx_at (upd_task t g s) w"
  by (fastforce simp: ctx_at_def sched_simps)

lemma complete_ctx:
  assumes "runs s i t x" "ctx_at s (workers s ! i)"
  shows "ctx_at (complete_fiber i t log s) (workers (complete_fiber i t log s) ! i)"
proof -
  let ?s = "upd_task t (\<lambda>x. x\<lparr>obj := set_state COMPLETED (obj x)\<rparr>) (s\<lparr>sout := sout s @ log\<rparr>)"
  have "ctx_at ?s (workers ?s ! i)"
    using upd_task_ctx [of "s\<lparr>sout := sout s @ log\<rparr>" "workers s ! i"] assms
    by (simp add: ctx_at_def sched_simps set_state_def)
  with assms(1) show ?thesis unfolding complete_fiber_def by (intro leave_ctx) (auto simp: sched_simps)
qed

lemma live_task: "sched_inv s \<Longrightarrow> t \<in># live s \<Longrightarrow> \<exists>x. tasks s t = Some x"
  by (auto simp: sched_inv_def dom_def)

lemma held_task: "sched_inv s \<Longrightarrow> i < length (workers s) \<Longrightarrow> t \<in> set (held (pc (workers s ! i))) \<Longrightarrow> \<exists>x. tasks s t = Some x"
  by (rule live_task [OF _ held_live])

lemma own_ctx:
  "sched_act s e s' \<Longrightarrow> sched_inv s \<Longrightarrow> worker_of e = Some i \<Longrightarrow> i < length (workers s) \<Longrightarrow>
   ctx_at s (workers s ! i) \<Longrightarrow> ctx_at s' (workers s' ! i)"
proof (induction rule: sched_act.induct)
  case (act_begin s j t now)
  then show ?case using held_task [of s j t] by (auto intro: begin_ctx)
next
  case (act_task_spawn s j t x f k raw now data u s')
  then have "t \<noteq> u" using sched_inv_fresh by (auto dest!: spawn_tasks)
  with act_task_spawn show ?case
    by (auto simp: ctx_at_def sched_simps set_code_def dest!: spawn_tasks)
next
  case (act_task_cancel s j t x u k)
  then show ?case by (auto simp: ctx_at_def sched_simps set_code_def cancel_task_def cancel_obj_def cancel_def Let_def)
next
  case (act_after s j t)
  then show ?case by (auto simp: ctx_at_def after_switch_def sched_simps split: option.splits)
next
  case (act_fetch s j t s')
  then show ?case by (auto intro!: ctx_outside simp: sched_simps dest!: taken_local taken_frame)
next
  case (act_steal s j lk draws t s')
  then have "taken t s s'" by (intro taken_fast) (auto simp: sched_inv_def)
  with act_steal show ?case by (auto intro!: ctx_outside simp: sched_simps dest!: taken_frame)
next
  case (act_print s j t x m k)
  then show ?case by (auto simp: ctx_at_def sched_simps set_code_def)
next
  case (act_yield_throw s j t x k c d now e)
  then show ?case by (auto simp: ctx_at_def sched_simps set_code_def)
next
  case (act_yield_check s j t x k c d now y)
  then show ?case by (auto simp: ctx_at_def sched_simps)
next
  case (act_task_register s j t u)
  then show ?case by (auto simp: ctx_at_def sched_simps)
next
  case (act_finish s j t x)
  then show ?case by (auto intro: complete_ctx)
next
  case (act_throw s j t x m)
  then show ?case by (auto intro: complete_ctx)
qed (auto intro!: ctx_outside simp: sched_simps yield_task_def clear_current_def)

text \<open>No two workers hold the same task, so a step leaves the other workers' fibers alone.\<close>

lemma act_keeps_other:
  assumes "sched_act s e s'" "sched_inv s" "j < length (workers s)" "worker_of e \<noteq> Some j"
    and "u \<in> set (held (pc (workers s ! j)))" "\<And>i. worker_of e = Some i \<Longrightarrow> i < length (workers s)"
  shows "keeps u s s'"
proof (rule act_keeps [OF assms(1,2)], intro allI impI)
  fix i assume i: "worker_of e = Some i"
  with held_unique [of s i j u] assms show "u \<notin> set (held (pc (workers s ! i)))"
    by (auto simp: sched_inv_def)
qed

lemma worker_of_bound: "sched_act s e s' \<Longrightarrow> worker_of e = Some i \<Longrightarrow> i < length (workers s)"
  by (induction rule: sched_act.induct) auto

lemma act_ctx:
  assumes a: "sched_act s e s'" and inv: "sched_inv s" and "ctx_ok s"
  shows "ctx_ok s'"
  unfolding ctx_ok_def act_length [OF a inv]
proof (intro allI impI)
  fix j assume j: "j < length (workers s)"
  with assms(3) have c: "ctx_at s (workers s ! j)" by (simp add: ctx_ok_def)
  show "ctx_at s' (workers s' ! j)"
  proof (cases "worker_of e = Some j")
    case True
    show ?thesis by (rule own_ctx [OF a inv True j c])
  next
    case False
    show ?thesis
      by (rule ctx_kept [OF c act_parked [OF a inv False j]])
         (rule act_keeps_other [OF a inv j False _ worker_of_bound [OF a]])
  qed
qed

interpretation ctx_sys: invariant_system sched_step "\<lambda>s. sched_inv s \<and> ctx_ok s"
  by unfold_locales (auto simp: sched_step_def intro: sched_act_inv act_ctx)

lemma start_workers: "workers (start (new_scheduler hw n)) = replicate (num_workers (new_scheduler hw n)) new_worker"
  by (simp add: start_def new_scheduler_def Let_def setup_preemption_def)

lemma ctx_ok_start: "ctx_ok (start (new_scheduler hw n))"
  by (simp add: ctx_ok_def start_workers ctx_outside new_worker_def)

lemma reachable_inv:
  assumes "run sched_step (start (new_scheduler hw n)) es s"
  shows "sched_inv s" "ctx_ok s"
  using ctx_sys.inv_run [OF assms] sched_inv_start ctx_ok_start by auto

text \<open>
  So \<open>yield_current_task\<close>, called by a fiber, finds the fiber's own task: it throws if that task was
  cancelled, and otherwise does what the two yield steps of the relation do.
\<close>

lemma yield_current_own:
  assumes "ctx_ok s" "runs s i t x"
  shows "yield_current_task (Some i) now s =
    (case yield_before now (obj x) of Inl e \<Rightarrow> Inl e | Inr y \<Rightarrow> Inr (yield_task i t now s))"
proof -
  from assms have "current_task (workers s ! i) = Some t" by (auto simp: ctx_ok_def ctx_at_def)
  with assms(2) show ?thesis by (simp add: yield_current_task_def)
qed

section \<open>The work that is left\<close>

primrec work :: "fiber \<Rightarrow> nat" where
  "work Done = 1"
| "work (Throw m) = 1"
| "work (YieldTo k c d) = 2 + work k + work c + work d"
| "work (SpawnThen f k) = 3 + work f + work k"
| "work (CancelThen t k) = 1 + work k"
| "work (PrintThen m k) = 1 + work k"

text \<open>A task that waits in a queue: if it is suspended, its \<open>yield\<close> is already behind it.\<close>

definition waiting_work :: "fiber_task \<Rightarrow> nat" where
  "waiting_work x =
     (case code x of
        YieldTo k c d \<Rightarrow> if uctx_initialized (obj x) then 1 + work k + work c + work d else work (code x)
      | _ \<Rightarrow> work (code x))"

definition queue_weight :: "sched \<Rightarrow> tid \<Rightarrow> nat" where
  "queue_weight s t = (case tasks s t of None \<Rightarrow> 0 | Some x \<Rightarrow> 8 * waiting_work x + 7)"

definition held_weight :: "worker_pc \<Rightarrow> fiber_task \<Rightarrow> nat" where
  "held_weight p x =
     (case p of
        Fetched t \<Rightarrow> 8 * waiting_work x + 6
      | InTask t \<Rightarrow> 8 * work (code x) + 5
      | Spawning t u \<Rightarrow> 8 * work (code x) + 6
      | Yielding t \<Rightarrow> 8 * work (code x) + 4
      | Returned t \<Rightarrow> if finished (state (obj x)) then 9 else 8 * waiting_work x + 9
      | _ \<Rightarrow> 0)"

definition place_weight :: "sched \<Rightarrow> worker_pc \<Rightarrow> nat" where
  "place_weight s p =
     (case held p of
        [] \<Rightarrow> if p = Clearing then 1 else 0
      | t # _ \<Rightarrow> (case tasks s t of None \<Rightarrow> 0 | Some x \<Rightarrow> held_weight p x))"

definition queued :: "sched \<Rightarrow> tid multiset" where
  "queued s = mset (global_queue s) + (\<Sum>w\<leftarrow>workers s. mset (local_queue w))"

definition todo :: "sched \<Rightarrow> nat" where
  "todo s = (\<Sum>t\<in>#queued s. queue_weight s t) + (\<Sum>w\<leftarrow>workers s. place_weight s (pc w))"

lemma live_queued: "live s = queued s + (\<Sum>w\<leftarrow>workers s. mset (held (pc w)))"
  by (simp add: live_def queued_def wtasks_def sum_list_addf add.assoc)

lemma same_code_weights:
  "same_code x x' \<Longrightarrow> waiting_work x' = waiting_work x"
  "same_code x x' \<Longrightarrow> held_weight p x' \<le> held_weight p x"
  by (auto simp: same_code_def waiting_work_def held_weight_def split: fiber.split worker_pc.split)

lemma keeps_queue_weight: "keeps t s s' \<Longrightarrow> tasks s t = Some x \<Longrightarrow> queue_weight s' t = queue_weight s t"
  by (auto simp: keeps_def queue_weight_def same_code_weights)

lemma keeps_place_weight:
  assumes "\<And>t. t \<in> set (held p) \<Longrightarrow> keeps t s s' \<and> tasks s t \<noteq> None"
  shows "place_weight s' p \<le> place_weight s p"
proof (cases "held p")
  case (Cons t ts)
  with assms obtain x x' where "tasks s t = Some x" "tasks s' t = Some x'" "same_code x x'"
    by (fastforce simp: keeps_def)
  with Cons show ?thesis by (simp add: place_weight_def same_code_weights)
qed (simp add: place_weight_def)

lemma sum_list_le_at:
  fixes g h :: "'a \<Rightarrow> nat"
  assumes "length xs = length ys" "i < length xs" "\<And>j. j < length xs \<Longrightarrow> j \<noteq> i \<Longrightarrow> h (ys ! j) \<le> g (xs ! j)"
  shows "(\<Sum>y\<leftarrow>ys. h y) + g (xs ! i) \<le> (\<Sum>x\<leftarrow>xs. g x) + h (ys ! i)"
proof -
  have "(\<Sum>y\<leftarrow>ys. h y) = h (ys ! i) + (\<Sum>j\<in>{..<length xs} - {i}. h (ys ! j))"
    using assms(1,2) by (simp add: sum_list_sum_nth sum.remove atLeast0LessThan)
  moreover have "(\<Sum>x\<leftarrow>xs. g x) = g (xs ! i) + (\<Sum>j\<in>{..<length xs} - {i}. g (xs ! j))"
    using assms(2) by (simp add: sum_list_sum_nth sum.remove atLeast0LessThan)
  moreover have "(\<Sum>j\<in>{..<length xs} - {i}. h (ys ! j)) \<le> (\<Sum>j\<in>{..<length xs} - {i}. g (xs ! j))"
    using assms(3) by (intro sum_mono) auto
  ultimately show ?thesis by simp
qed

lemma queued_upd_worker:
  assumes "\<And>w. local_queue (f w) = local_queue w"
  shows "queued (upd_worker i f s) = queued s"
proof -
  have "map local_queue ((workers s)[i := f (workers s ! i)]) = map local_queue (workers s)"
    by (metis assms list_update_beyond list_update_id map_update not_le nth_map)
  then have "map (mset \<circ> local_queue) ((workers s)[i := f (workers s ! i)]) = map (mset \<circ> local_queue) (workers s)"
    by (metis map_map)
  then show ?thesis by (simp add: queued_def upd_worker_def o_def)
qed

lemma queued_push:
  "i < length (workers s) \<Longrightarrow>
   queued (upd_worker i (\<lambda>w. w\<lparr>local_queue := queue_push t (local_queue w)\<rparr>) s) = add_mset t (queued s)"
  using sum_list_update_add [of i "workers s" "\<lambda>w. mset (local_queue w)"
      "(workers s ! i)\<lparr>local_queue := queue_push t (local_queue (workers s ! i))\<rparr>"]
  by (simp add: queued_def upd_worker_def queue_push_def)

lemma queued_pop:
  assumes "i < length (workers s)" "queue_of s i = t # q"
  shows "queued s = add_mset t (queued (upd_worker i (\<lambda>w. w\<lparr>local_queue := q\<rparr>) s))"
  using sum_list_update_add [OF assms(1), of "\<lambda>w. mset (local_queue w)" "(workers s ! i)\<lparr>local_queue := q\<rparr>"] assms(2)
  by (simp add: queued_def upd_worker_def)

lemma taken_queued: "taken t s s' \<Longrightarrow> queued s = add_mset t (queued s')"
  by (auto simp: taken_def queued_pop) (simp add: queued_def)

lemma queued_frame [sched_simps]:
  "queued (set_pc i p s) = queued s" "queued (upd_task t g s) = queued s" "queued (set_code t k s) = queued s"
  "queued (track_current i t now s) = queued s" "queued (clear_current i s) = queued s"
  "queued (cancel_task t s) = queued s" "queued (spawn_register t s) = queued s"
  "queued (leave_fiber i t s) = queued s" "queued (timer_test s) = queued s" "queued (stop_begin s) = queued s"
  "queued (stop_signal i s) = queued s" "queued (s\<lparr>sout := out\<rparr>) = queued s" "queued (s\<lparr>timer := tp\<rparr>) = queued s"
  "queued (s\<lparr>stopper := sp\<rparr>) = queued s" "queued (s\<lparr>active_tasks := n\<rparr>) = queued s"
proof -
  show *: "queued (set_pc i p s) = queued s" for i p s unfolding set_pc_def by (rule queued_upd_worker) simp
  have u: "queued (upd_task t g s) = queued s" for t g s by (simp add: queued_def upd_task_def)
  then show "queued (upd_task t g s) = queued s" "queued (set_code t k s) = queued s" by (simp_all add: set_code_def)
  show "queued (track_current i t now s) = queued s" "queued (clear_current i s) = queued s"
    unfolding track_current_def clear_current_def by (rule queued_upd_worker, simp)+
  show "queued (leave_fiber i t s) = queued s"
    by (auto simp: leave_fiber_def * split: option.split) (simp add: queued_def)
  have "queued (upd_worker i (\<lambda>w. w\<lparr>should_stop := True\<rparr>) s) = queued s" by (rule queued_upd_worker) simp
  then show "queued (stop_signal i s) = queued s" by (simp add: stop_signal_def queued_def)
qed (simp_all add: queued_def cancel_task_def spawn_register_def timer_test_def stop_begin_def Let_def sched_simps upd_task_def)

lemma queued_spawn: "spawn_enqueue raw now data f s = (t, s') \<Longrightarrow> queued s' = add_mset t (queued s)"
  by (auto simp: queued_def dest!: spawn_tasks)

lemma queued_preempt: "queued (preempt_long_running_tasks now s) = queued s"
proof -
  have "map local_queue (workers (preempt_long_running_tasks now s)) = map local_queue (workers s)"
    by (auto simp: preempt_long_running_tasks_def split: option.splits)
  then have "map (mset \<circ> local_queue) (workers (preempt_long_running_tasks now s)) = map (mset \<circ> local_queue) (workers s)"
    by (metis map_map)
  moreover have "global_queue (preempt_long_running_tasks now s) = global_queue s"
    by (simp add: preempt_long_running_tasks_def)
  ultimately show ?thesis by (simp add: queued_def o_def)
qed

lemma queued_free:
  assumes "sched_inv s" "i < length (workers s)" "u \<in># queued s"
  shows "u \<notin> set (held (pc (workers s ! i)))"
proof
  assume "u \<in> set (held (pc (workers s ! i)))"
  then have "u \<in># (\<Sum>w\<leftarrow>workers s. mset (held (pc w)))"
    using assms(2) by (auto intro!: bexI [of _ "workers s ! i"])
  then have "count (\<Sum>w\<leftarrow>workers s. mset (held (pc w))) u \<ge> 1" by (simp add: Suc_le_eq)
  moreover have "count (queued s) u \<ge> 1" using assms(3) by (simp add: Suc_le_eq)
  ultimately have "count (live s) u \<ge> 2" unfolding live_queued count_union by linarith
  with assms(1) show False by (metis Suc_1 not_less_eq_eq sched_inv_def)
qed

lemma queued_live: "u \<in># queued s \<Longrightarrow> u \<in># live s"
  by (simp add: live_queued)

text \<open>
  The balance of one step of worker \<open>i\<close>: the tasks \<open>A\<close> leave the queues, the tasks \<open>B\<close> enter them, and
  the worker changes its own place.
\<close>

lemma queue_sum_kept:
  assumes "sched_act s e s'" "sched_inv s" "A \<subseteq># queued s"
  shows "(\<Sum>t\<in>#A. queue_weight s' t) = (\<Sum>t\<in>#A. queue_weight s t)"
proof (intro arg_cong [where f = sum_mset] image_mset_cong)
  fix u assume "u \<in># A"
  with assms(3) have u: "u \<in># queued s" by (rule mset_subset_eqD)
  then have "keeps u s s'"
    using queued_free [OF assms(2) worker_of_bound [OF assms(1)]] by (intro act_keeps [OF assms(1,2)]) auto
  moreover obtain x where "tasks s u = Some x" using live_task [OF assms(2) queued_live [OF u]] by blast
  ultimately show "queue_weight s' u = queue_weight s u" by (rule keeps_queue_weight)
qed

lemma place_others:
  assumes "sched_act s e s'" "sched_inv s" "j < length (workers s)" "worker_of e \<noteq> Some j"
  shows "place_weight s' (pc (workers s' ! j)) \<le> place_weight s (pc (workers s ! j))"
proof -
  have "pc (workers s' ! j) = pc (workers s ! j)"
    using act_parked [OF assms(1,2,4,3)] by (simp add: parked_def)
  moreover have "place_weight s' (pc (workers s ! j)) \<le> place_weight s (pc (workers s ! j))"
    using act_keeps_other [OF assms _ worker_of_bound [OF assms(1)]] held_task [OF assms(2,3)]
    by (intro keeps_place_weight) auto
  ultimately show ?thesis by simp
qed

lemma todo_balance:
  assumes a: "sched_act s e s'" and inv: "sched_inv s" and i: "worker_of e = Some i"
    and q: "queued s' + A = queued s + B" and A: "A \<subseteq># queued s"
  shows "todo s' + (\<Sum>t\<in>#A. queue_weight s t) + place_weight s (pc (workers s ! i))
       \<le> todo s + (\<Sum>t\<in>#B. queue_weight s' t) + place_weight s' (pc (workers s' ! i))"
proof -
  have "(\<Sum>w\<leftarrow>workers s'. place_weight s' (pc w)) + place_weight s (pc (workers s ! i))
      \<le> (\<Sum>w\<leftarrow>workers s. place_weight s (pc w)) + place_weight s' (pc (workers s' ! i))"
    using place_others [OF a inv] i
    by (intro sum_list_le_at [OF act_length [OF a inv, symmetric] worker_of_bound [OF a i]]) auto
  moreover have "(\<Sum>t\<in>#queued s'. queue_weight s' t) + (\<Sum>t\<in>#A. queue_weight s' t)
      = (\<Sum>t\<in>#queued s. queue_weight s' t) + (\<Sum>t\<in>#B. queue_weight s' t)"
    using arg_cong [OF q, of "\<lambda>M. \<Sum>t\<in>#M. queue_weight s' t"] by simp
  ultimately show ?thesis
    using queue_sum_kept [OF a inv A] queue_sum_kept [OF a inv, of "queued s"] by (simp add: todo_def)
qed

lemma todo_other:
  assumes a: "sched_act s e s'" and inv: "sched_inv s" and "worker_of e = None" "queued s' = queued s"
  shows "todo s' \<le> todo s"
proof -
  have "(\<Sum>w\<leftarrow>workers s'. place_weight s' (pc w)) \<le> (\<Sum>w\<leftarrow>workers s. place_weight s (pc w))"
    using place_others [OF a inv] assms(3) act_length [OF a inv]
    by (simp add: sum_list_sum_nth) (intro sum_mono, simp)
  then show ?thesis using queue_sum_kept [OF a inv, of "queued s"] assms(4) by (simp add: todo_def)
qed

lemmas todo_same = todo_balance [where A = "{#}" and B = "{#}", simplified]
lemmas todo_pop = todo_balance [where B = "{#}", simplified]
lemmas todo_push = todo_balance [where A = "{#}", simplified]

lemma fetched_decreases:
  assumes a: "sched_act s e (set_pc i (Fetched t) s1)" and inv: "sched_inv s" and "worker_of e = Some i"
    and tk: "taken t s s1" and pc: "pc (workers s ! i) = Polling"
  shows "todo (set_pc i (Fetched t) s1) < todo s"
proof -
  let ?s' = "set_pc i (Fetched t) s1"
  have q: "queued ?s' + {#t#} = queued s" using taken_queued [OF tk] by (simp add: sched_simps)
  then have "t \<in># queued s" by (metis add_mset_add_single union_single_eq_member)
  then obtain x where x: "tasks s t = Some x" using live_task [OF inv queued_live] by blast
  with taken_frame [OF tk] have x': "tasks ?s' t = Some x" by (simp add: sched_simps)
  have "place_weight ?s' (pc (workers ?s' ! i)) = 8 * waiting_work x + 6"
    using x' worker_of_bound [OF a assms(3)] taken_frame [OF tk]
    by (simp add: sched_simps place_weight_def held_weight_def)
  moreover have "queue_weight s t = 8 * waiting_work x + 7" using x by (simp add: queue_weight_def)
  moreover have "place_weight s (pc (workers s ! i)) = 0" using pc by (simp add: place_weight_def)
  ultimately show ?thesis
    using todo_pop [OF a inv assms(3), of "{#t#}"] q \<open>t \<in># queued s\<close> by simp
qed

text \<open>A step inside the fiber that keeps the queues: its worker's weight goes down.\<close>

lemma place_decreases:
  assumes "sched_act s e s'" "sched_inv s" "worker_of e = Some i" "queued s' = queued s"
    and "place_weight s' (pc (workers s' ! i)) < place_weight s (pc (workers s ! i))"
  shows "todo s' < todo s"
  using todo_same [OF assms(1-4)] assms(5) by simp

lemma enter_fiber_work:
  "enter_fiber i x = (False, x') \<Longrightarrow> work (code x') \<le> waiting_work x"
  "enter_fiber i x = (True, x') \<Longrightarrow> finished (state (obj x'))"
  by (auto simp: enter_fiber_def waiting_work_def Let_def set_state_def finished_def yield_after_def
      split: if_splits fiber.splits)

lemma waiting_work_pos: "0 < waiting_work x"
proof -
  have "0 < work k" for k by (cases k) auto
  then show ?thesis by (auto simp: waiting_work_def split: fiber.split)
qed

lemma begin_decreases:
  assumes a: "sched_act s (EBegin i t) (begin_task i t now s)" and inv: "sched_inv s" and at: "at s i (Fetched t)"
  shows "todo (begin_task i t now s) < todo s \<or> derailed (begin_task i t now s)"
proof -
  let ?s' = "begin_task i t now s"
  obtain x where x: "tasks s t = Some x" using held_task [OF inv, of i t] at by auto
  obtain ends x' where e: "enter_fiber i x = (ends, x')" by fastforce
  have "queued ?s' = queued s" using x e by (simp add: begin_task_def Let_def sched_simps)
  moreover have "place_weight ?s' (pc (workers ?s' ! i)) < 8 * waiting_work x + 6 \<or> derailed ?s'"
  proof (cases ends)
    case True
    with e have "finished (state (obj x'))" by (simp add: enter_fiber_work)
    with True e x at waiting_work_pos [of x] show ?thesis
      by (auto simp: begin_task_def Let_def leave_fiber_def track_current_def sched_simps place_weight_def held_weight_def)
  next
    case False
    with e have "work (code x') \<le> waiting_work x" by (simp add: enter_fiber_work)
    with False e x at show ?thesis
      by (auto simp: begin_task_def Let_def track_current_def sched_simps place_weight_def held_weight_def)
  qed
  moreover have "place_weight s (pc (workers s ! i)) = 8 * waiting_work x + 6"
    using x at by (simp add: place_weight_def held_weight_def)
  ultimately show ?thesis using place_decreases [OF a inv, of i] by auto
qed

lemma complete_decreases:
  assumes a: "sched_act s e (complete_fiber i t log s)" and inv: "sched_inv s" and "worker_of e = Some i"
    and r: "runs s i t x" and "0 < work (code x)"
  shows "todo (complete_fiber i t log s) < todo s \<or> derailed (complete_fiber i t log s)"
proof -
  let ?s' = "complete_fiber i t log s"
  have "queued ?s' = queued s" by (simp add: complete_fiber_def sched_simps)
  moreover have "place_weight ?s' (pc (workers ?s' ! i)) \<le> 9 \<or> derailed ?s'"
    using r by (auto simp: complete_fiber_def leave_fiber_def sched_simps place_weight_def held_weight_def
        set_state_def finished_def)
  moreover have "place_weight s (pc (workers s ! i)) > 9"
    using r assms(5) by (simp add: place_weight_def held_weight_def)
  ultimately show ?thesis using place_decreases [OF a inv assms(3)] by auto
qed

lemma task_spawn_decreases:
  assumes a: "sched_act s e (set_pc i (Spawning t u) (set_code t k s1))" and inv: "sched_inv s"
    and "worker_of e = Some i" and r: "runs s i t x" and c: "code x = SpawnThen f k"
    and sp: "spawn_enqueue raw now data f s = (u, s1)"
  shows "todo (set_pc i (Spawning t u) (set_code t k s1)) < todo s"
proof -
  let ?s' = "set_pc i (Spawning t u) (set_code t k s1)"
  note f = spawn_tasks [OF sp]
  have tu: "t \<noteq> u" using f r sched_inv_fresh [OF inv] by auto
  have "queued ?s' = queued s + {#u#}" using queued_spawn [OF sp] by (simp add: sched_simps)
  from todo_push [OF a inv assms(3) this] have
    "todo ?s' + place_weight s (pc (workers s ! i)) \<le> todo s + queue_weight ?s' u + place_weight ?s' (pc (workers ?s' ! i))"
    by simp
  moreover have "queue_weight ?s' u = 8 * work f + 7"
    using f tu by (simp add: queue_weight_def sched_simps set_code_def waiting_work_def new_task_def initialize_stack_def
        split: fiber.split)
  moreover have "place_weight ?s' (pc (workers ?s' ! i)) = 8 * work k + 6"
    using f tu r by (simp add: sched_simps set_code_def place_weight_def held_weight_def)
  moreover have "place_weight s (pc (workers s ! i)) = 8 * (3 + work f + work k) + 5"
    using r c by (simp add: place_weight_def held_weight_def)
  ultimately show ?thesis by simp
qed

lemma after_decreases:
  assumes a: "sched_act s (EAfter i t) (after_switch i t s)" and inv: "sched_inv s" and at: "at s i (Returned t)"
  shows "todo (after_switch i t s) < todo s"
proof -
  let ?s' = "after_switch i t s"
  obtain x where x: "tasks s t = Some x" using held_task [OF inv, of i t] at by auto
  have pl: "place_weight ?s' (pc (workers ?s' ! i)) = 1"
    using x at by (simp add: after_switch_def sched_simps place_weight_def)
  show ?thesis
  proof (cases "state (obj x) = RUNNABLE")
    case True
    then have "queued ?s' = queued s + {#t#}" using x at by (simp add: after_switch_def sched_simps queued_push)
    from todo_push [OF a inv _ this] pl have "todo ?s' + place_weight s (pc (workers s ! i)) \<le> todo s + queue_weight ?s' t + 1"
      by simp
    moreover have "queue_weight ?s' t = 8 * waiting_work x + 7" using x by (simp add: queue_weight_def sched_simps)
    moreover have "place_weight s (pc (workers s ! i)) = 8 * waiting_work x + 9"
      using x at True by (simp add: place_weight_def held_weight_def finished_def)
    ultimately show ?thesis by simp
  next
    case False
    then have "queued ?s' = queued s" using x by (simp add: after_switch_def sched_simps)
    moreover have "place_weight s (pc (workers s ! i)) \<ge> 9" using x at by (simp add: place_weight_def held_weight_def)
    ultimately show ?thesis using pl by (intro place_decreases [OF a inv, of i]) auto
  qed
qed

lemma yield_decreases:
  assumes a: "sched_act s (EYield i t) (yield_task i t now s)" and inv: "sched_inv s" and "ctx_ok s"
    and at: "at s i (Yielding t)"
  shows "todo (yield_task i t now s) < todo s"
proof (rule place_decreases [OF a inv, of i])
  from assms(3) at obtain x k c d where "tasks s t = Some x" "uctx_initialized (obj x)" "code x = YieldTo k c d"
    by (force simp: ctx_ok_def ctx_at_def)
  with at show "place_weight (yield_task i t now s) (pc (workers (yield_task i t now s) ! i))
      < place_weight s (pc (workers s ! i))"
    by (simp add: yield_task_def sched_simps place_weight_def held_weight_def yield_commit_def finished_def waiting_work_def)
qed (simp_all add: yield_task_def sched_simps)

lemma fiber_place:
  "runs s i t x \<Longrightarrow> tasks s' t = Some y \<Longrightarrow> workers s' = workers s \<Longrightarrow> work (code y) < work (code x) \<Longrightarrow>
   place_weight s' (pc (workers s' ! i)) < place_weight s (pc (workers s ! i))"
  by (simp add: place_weight_def held_weight_def)

lemma useful_decreases:
  assumes "sched_act s e s'" "sched_inv s" "ctx_ok s" "useful e"
  shows "todo s' < todo s \<or> derailed s'"
  using assms(1)
proof (cases rule: sched_act.cases)
  case (act_fetch i t s1)
  then show ?thesis using assms(1,2) fetched_decreases [of s e i t s1] by (auto dest: taken_local)
next
  case (act_steal i lk draws t s1)
  then have "taken t s s1" using assms(2) by (intro taken_fast) (auto simp: sched_inv_def)
  with act_steal show ?thesis using assms(1,2) fetched_decreases [of s e i t s1] by auto
next
  case (act_begin i t now)
  then show ?thesis using assms(1,2) begin_decreases by simp
next
  case (act_finish i t x)
  then show ?thesis using assms(1,2) complete_decreases [of s e i t "[]"] by simp
next
  case (act_throw i t x m)
  then show ?thesis using assms(1,2) complete_decreases [of s e i t _ x] by simp
next
  case (act_print i t x m k)
  then show ?thesis using assms(1,2)
    by (intro disjI1 place_decreases [of s e s' i] fiber_place [where x = x and t = t and y = "x\<lparr>code := k\<rparr>"])
       (simp_all add: sched_simps set_code_def)
next
  case (act_yield_throw i t x k c d now err)
  then show ?thesis using assms(1,2)
    by (intro disjI1 place_decreases [of s e s' i] fiber_place [where x = x and t = t and y = "x\<lparr>code := c\<rparr>"])
       (simp_all add: sched_simps set_code_def)
next
  case (act_yield_check i t x k c d now y)
  then show ?thesis using assms(1,2)
    by (intro disjI1 place_decreases [of s e s' i]) (simp_all add: sched_simps place_weight_def held_weight_def)
next
  case (act_yield i t now)
  then show ?thesis using assms(1-3) yield_decreases by simp
next
  case (act_task_spawn i t x f k raw now data u s1)
  then show ?thesis using assms(1,2) task_spawn_decreases [of s e i t u k s1 x f] by simp
next
  case (act_task_register i t u)
  then obtain x where "tasks s t = Some x" using held_task [OF assms(2), of i t] by auto
  with act_task_register show ?thesis using assms(1,2)
    by (intro disjI1 place_decreases [of s e s' i]) (simp_all add: sched_simps place_weight_def held_weight_def)
next
  case (act_task_cancel i t x u k)
  then obtain y where "tasks (cancel_task u s) t = Some y" "same_code x y"
    using keeps_cancel [of t s u] by (auto simp: keeps_def)
  with act_task_cancel show ?thesis using assms(1,2)
    by (intro disjI1 place_decreases [of s e s' i] fiber_place [where x = x and t = t and y = "y\<lparr>code := k\<rparr>"])
       (simp_all add: sched_simps set_code_def)
next
  case (act_after i t)
  then show ?thesis using assms(1,2) after_decreases by simp
next
  case (act_clear i)
  then show ?thesis using assms(1,2)
    by (intro disjI1 place_decreases [of s e s' i]) (simp_all add: sched_simps clear_current_def place_weight_def queued_upd_worker)
qed (use assms(4) in \<open>simp_all add: useful_def\<close>)

lemma idle_keeps_todo:
  assumes "sched_act s e s'" "sched_inv s" "\<not> useful e" "\<not> external_spawn e"
  shows "todo s' \<le> todo s"
  using assms(1)
proof (cases rule: sched_act.cases)
  case (act_poll i)
  then show ?thesis using todo_same [OF assms(1,2), of i] by (simp add: sched_simps place_weight_def)
next
  case (act_exit i)
  then show ?thesis using todo_same [OF assms(1,2), of i] by (simp add: sched_simps place_weight_def)
next
  case (act_idle i lk draws)
  then show ?thesis using todo_same [OF assms(1,2), of i] by (simp add: sched_simps place_weight_def)
next
  case (act_preempt now)
  then show ?thesis using todo_other [OF assms(1,2)] by (simp add: queued_preempt sched_simps)
qed (use assms(3,4) todo_other [OF assms(1,2)] in \<open>simp_all add: useful_def sched_simps\<close>)

lemma useful_bounded:
  "run sched_step s es s' \<Longrightarrow> sched_inv s \<Longrightarrow> ctx_ok s \<Longrightarrow> \<forall>e \<in> set es. \<not> external_spawn e \<Longrightarrow>
   length (filter useful es) \<le> todo s + (if derailed s' then 1 else 0)"
proof (induction rule: run.induct)
  case (run_Cons s e t es u)
  then have a: "sched_act s e t" by (simp add: sched_step_def)
  show ?case
  proof (cases "derailed t")
    case True
    then have "es = [] \<and> u = t" using run_Cons.hyps(2) by (cases es) (auto simp: sched_step_def)
    with True show ?thesis by simp
  next
    case False
    have "length (filter useful es) \<le> todo t + (if derailed u then 1 else 0)"
      using run_Cons.IH run_Cons.prems sched_act_inv [OF a] act_ctx [OF a] by simp
    moreover have "todo t < todo s" if "useful e" using useful_decreases [OF a] run_Cons.prems that False by auto
    moreover have "todo t \<le> todo s" if "\<not> useful e" using idle_keeps_todo [OF a] run_Cons.prems that by auto
    ultimately show ?thesis by (cases "useful e") auto
  qed
qed simp

section \<open>No worker is stuck\<close>

lemma steal_returns:
  assumes "num_workers s = length (workers s)" "i < length (workers s)"
  shows "\<exists>ds r. steal_task_fast i lk ds s = Some r"
proof -
  let ?n = "num_workers s" let ?ds = "replicate (max_attempts s) (Suc i)"
  have "Suc i mod ?n \<noteq> i \<or> ?n = 1" using assms by (cases "Suc i = ?n") auto
  then have "filter (\<lambda>d. d mod ?n \<noteq> i \<or> ?n = 1) ?ds = ?ds" by simp
  moreover have "0 < ?n" using assms by linarith
  ultimately show ?thesis using steal_task_fast_returns_aux [of s i ?ds lk] by auto
qed

text \<open>Every worker that has not left its loop can take a step, and one that has a task can work on it.\<close>

lemma worker_not_stuck:
  assumes inv: "sched_inv s" and i: "i < length (workers s)" and "pc (workers s ! i) \<noteq> Exited"
  shows "\<exists>e s'. sched_act s e s' \<and> worker_of e = Some i
     \<and> (pc (workers s ! i) \<noteq> AtLoop \<and> pc (workers s ! i) \<noteq> Polling \<longrightarrow> useful e)"
proof (cases "pc (workers s ! i)")
  case AtLoop
  then show ?thesis using i act_poll [of i s] act_exit [of i s] by (cases "should_stop (workers s ! i)") fastforce+
next
  case Polling
  show ?thesis
  proof (cases "fetch_local i s")
    case None
    obtain ds r where r: "steal_task_fast i (\<lambda>_. True) ds s = Some r"
      using steal_returns [OF _ i, of "\<lambda>_. True"] inv unfolding sched_inv_def by blast
    with None Polling i show ?thesis
      using act_steal [of i s "\<lambda>_. True" ds] act_idle [of i s "\<lambda>_. True" ds] by (cases r) fastforce+
  next
    case (Some p)
    with Polling i show ?thesis using act_fetch [of i s] by (cases p) fastforce
  qed
next
  case (InTask t)
  then obtain x where x: "tasks s t = Some x" using held_task [OF inv i, of t] by auto
  show ?thesis
  proof (cases "code x")
    case (SpawnThen f k)
    obtain u s1 where "spawn_enqueue sample_task 0 0 f s = (u, s1)" by fastforce
    with SpawnThen InTask x i show ?thesis using act_task_spawn [of i s t x f k] by (fastforce simp: useful_def)
  next
    case (YieldTo k c d)
    with InTask x i show ?thesis using act_yield_throw [of i s t x k c d 0] act_yield_check [of i s t x k c d 0]
      by (cases "yield_before 0 (obj x)") (fastforce simp: useful_def)+
  qed (use InTask x i act_finish [of i s t x] act_throw [of i s t x] act_print [of i s t x]
        act_task_cancel [of i s t x] in \<open>fastforce simp: useful_def\<close>)+
qed (use assms act_begin [of i s] act_task_register [of i s] act_yield [of i s] act_after [of i s]
      act_clear [of i s] in \<open>fastforce simp: useful_def\<close>)+

end
