(* ===== verification/Scheduler_Live.thy ===== *)
theory Scheduler_Live
  imports Scheduler_Work
begin

text \<open>
  That the scheduler gets its work done: a run without new spawns from outside contains only finitely
  many useful steps, with one worker all tasks come to their end, and \<open>stop\<close> returns.
\<close>

section \<open>The flags of stop\<close>

text \<open>A worker's flag is set exactly when \<open>stop\<close> has passed it, and only a flagged worker leaves.\<close>

definition signalled :: "sched \<Rightarrow> nat \<Rightarrow> bool" where
  "signalled s i \<longleftrightarrow> (case stopper s of StopSignal k \<Rightarrow> i < k | StopDone \<Rightarrow> True | _ \<Rightarrow> False)"

definition flags_ok :: "sched \<Rightarrow> bool" where
  "flags_ok s \<longleftrightarrow> (\<forall>i < length (workers s). (should_stop (workers s ! i) \<longleftrightarrow> signalled s i)
     \<and> (pc (workers s ! i) = Exited \<longrightarrow> should_stop (workers s ! i)))"

definition same_flags :: "sched \<Rightarrow> sched \<Rightarrow> bool" where
  "same_flags s s' \<longleftrightarrow> map should_stop (workers s') = map should_stop (workers s) \<and> stopper s' = stopper s"

lemma same_flags_taken: "taken t s s' \<Longrightarrow> same_flags s s'"
  by (auto simp: taken_def same_flags_def upd_worker_def map_update list_update_same_conv)

lemma same_flags_upd: "(\<And>w. should_stop (f w) = should_stop w) \<Longrightarrow> same_flags s (upd_worker i f s)"
  by (cases "i < length (workers s)")
     (simp_all add: same_flags_def upd_worker_def map_update list_update_same_conv list_update_beyond)

lemma same_flags_trans: "same_flags s t \<Longrightarrow> same_flags t u \<Longrightarrow> same_flags s u"
  by (simp add: same_flags_def)

lemma same_flags_set_pc: "same_flags s t \<Longrightarrow> same_flags s (set_pc i p t)"
  unfolding set_pc_def by (erule same_flags_trans) (rule same_flags_upd, simp)

lemma same_flags_frame: "workers t = workers s \<Longrightarrow> stopper t = stopper s \<Longrightarrow> same_flags s t"
  by (simp add: same_flags_def)

lemma same_flags_leave: "same_flags s t \<Longrightarrow> same_flags s (leave_fiber i u t)"
  by (auto simp: leave_fiber_def same_flags_set_pc split: option.split) (auto simp: same_flags_def)

lemma stopper_frame [sched_simps]:
  "stopper (upd_worker i f s) = stopper s" "stopper (upd_task t g s) = stopper s" "stopper (set_code t k s) = stopper s"
  "stopper (cancel_task t s) = stopper s" "stopper (spawn_register t s) = stopper s"
  "spawn_enqueue raw now data fb s = (t, s') \<Longrightarrow> stopper s' = stopper s"
  by (auto simp: upd_worker_def upd_task_def set_code_def cancel_task_def spawn_register_def spawn_enqueue_def
      schedule_task_def Let_def)

lemma same_flags_begin: "same_flags s (begin_task i t now s)"
proof -
  have "same_flags s (upd_task t (\<lambda>_. x') (track_current i t now s))" for x'
    using same_flags_upd [of "\<lambda>w. w\<lparr>current_task := Some t, current_task_start_time := Some now,
       preemption_requested := False\<rparr>" s i] by (simp add: same_flags_def track_current_def sched_simps)
  then show ?thesis
    by (auto simp: begin_task_def Let_def same_flags_def [of s s] intro: same_flags_leave same_flags_set_pc
        split: option.split prod.split)
qed

lemma same_flags_after: "same_flags s (after_switch i t s)"
  by (auto simp: after_switch_def intro!: same_flags_set_pc same_flags_upd split: option.split)
     (simp_all add: same_flags_def)

lemma act_flags: "sched_act s e s' \<Longrightarrow> sched_inv s \<Longrightarrow> worker_of e \<noteq> None \<Longrightarrow> same_flags s s'"
proof (induction rule: sched_act.induct)
  case (act_steal s i lk draws t s')
  then have "taken t s s'" by (intro taken_fast) (auto simp: sched_inv_def)
  then show ?case by (intro same_flags_set_pc same_flags_taken)
next
  case (act_fetch s i t s')
  then show ?case by (auto intro: same_flags_set_pc same_flags_taken taken_local)
next
  case (act_clear s i)
  then show ?case unfolding clear_current_def by (intro same_flags_upd) simp
next
  case (act_task_spawn s i t x f k raw now data u s')
  then show ?case
    by (intro same_flags_set_pc same_flags_frame) (auto simp: sched_simps dest: spawn_tasks)
qed (auto intro!: same_flags_set_pc same_flags_begin same_flags_after same_flags_leave same_flags_frame
      simp: complete_fiber_def yield_task_def sched_simps)

lemma own_exit:
  "sched_act s e s' \<Longrightarrow> sched_inv s \<Longrightarrow> worker_of e = Some i \<Longrightarrow> pc (workers s' ! i) = Exited \<Longrightarrow>
   should_stop (workers s ! i)"
proof (induction rule: sched_act.induct)
  case (act_steal s j lk draws t s')
  then have "taken t s s'" by (intro taken_fast) (auto simp: sched_inv_def)
  with act_steal show ?case by (auto simp: sched_simps dest!: taken_frame)
next
  case (act_fetch s j t s')
  then show ?case by (auto simp: sched_simps dest!: taken_local taken_frame)
next
  case (act_begin s j t now)
  then show ?case using held_task [of s j t]
    by (auto simp: begin_task_def leave_fiber_def track_current_def Let_def sched_simps
        split: option.splits prod.splits if_splits)
next
  case (act_after s j t)
  then show ?case using held_task [of s j t] by (auto simp: after_switch_def sched_simps)
qed (auto simp: complete_fiber_def leave_fiber_def yield_task_def clear_current_def sched_simps
      dest!: spawn_tasks split: option.splits if_splits)

lemma flags_kept:
  assumes a: "sched_act s e s'" and inv: "sched_inv s" and f: "flags_ok s" and w: "worker_of e \<noteq> None"
  shows "flags_ok s'"
  unfolding flags_ok_def act_length [OF a inv]
proof (intro allI impI)
  fix j assume j: "j < length (workers s)"
  from act_flags [OF a inv w] have m: "map should_stop (workers s') = map should_stop (workers s)"
    and st: "stopper s' = stopper s" by (simp_all add: same_flags_def)
  from m j act_length [OF a inv] have ss: "should_stop (workers s' ! j) = should_stop (workers s ! j)"
    by (metis nth_map)
  moreover have "should_stop (workers s ! j)" if "pc (workers s' ! j) = Exited"
  proof (cases "worker_of e = Some j")
    case True
    with own_exit [OF a inv] that show ?thesis by blast
  next
    case False
    with act_parked [OF a inv False j] f j that show ?thesis by (auto simp: parked_def flags_ok_def)
  qed
  ultimately show "(should_stop (workers s' ! j) \<longleftrightarrow> signalled s' j)
      \<and> (pc (workers s' ! j) = Exited \<longrightarrow> should_stop (workers s' ! j))"
    using f j st by (simp add: flags_ok_def signalled_def)
qed

lemma flags_cong: "workers s' = workers s \<Longrightarrow> stopper s' = stopper s \<Longrightarrow> flags_ok s \<Longrightarrow> flags_ok s'"
  unfolding flags_ok_def signalled_def by metis

lemma act_flags_ok:
  assumes "sched_act s e s'" "sched_inv s" "flags_ok s"
  shows "flags_ok s'"
proof (cases "worker_of e")
  case None
  from assms(1) show ?thesis
  proof (cases rule: sched_act.cases)
    case (act_spawn raw now data f t)
    then show ?thesis using assms(3) by (auto intro: flags_cong simp: sched_simps dest: spawn_tasks)
  next
    case (act_preempt now)
    then show ?thesis using assms(3)
      by (auto simp: flags_ok_def signalled_def preempt_long_running_tasks_def split: option.splits)
  next
    case (act_stop_signal i)
    then show ?thesis using assms(3)
      by (auto simp: flags_ok_def signalled_def stop_signal_def sched_simps nth_list_update)
  next
    case (act_stopped i)
    then show ?thesis using assms(3) by (auto simp: flags_ok_def signalled_def)
  qed (use None assms(3) in \<open>auto simp: flags_ok_def signalled_def timer_test_def stop_begin_def sched_simps\<close>)
next
  case (Some i)
  then show ?thesis by (intro flags_kept [OF assms]) simp
qed

interpretation flag_sys: invariant_system sched_step "\<lambda>s. sched_inv s \<and> flags_ok s"
  by unfold_locales (auto simp: sched_step_def intro: sched_act_inv act_flags_ok)

lemma reachable_flags: "run sched_step (start (new_scheduler hw n)) es s \<Longrightarrow> flags_ok s"
proof -
  have "stopper (start (new_scheduler hw n)) = StopIdle"
    by (simp add: start_def new_scheduler_def Let_def setup_preemption_def)
  then have "flags_ok (start (new_scheduler hw n))"
    by (simp add: flags_ok_def signalled_def start_workers new_worker_def)
  then show "run sched_step (start (new_scheduler hw n)) es s \<Longrightarrow> flags_ok s"
    using flag_sys.inv_run sched_inv_start by blast
qed

section \<open>All tasks come to their end\<close>

lemma poll_fetches:
  assumes inv: "sched_inv s" and at: "at s i Polling" and "queue_of s i \<noteq> [] \<or> global_queue s \<noteq> []"
  shows "\<exists>e s'. sched_act s e s' \<and> useful e \<and> worker_of e = Some i"
proof (cases "queue_of s i")
  case Nil
  then obtain t q where "global_queue s = t # q" using assms(3) by (cases "global_queue s") auto
  then have "steal_task_fast i (\<lambda>_. True) [] s = Some (Some (t, s\<lparr>global_queue := q\<rparr>))"
    by (simp add: steal_task_fast_def steal_global_def)
  from act_steal [OF at _ this] Nil show ?thesis by (fastforce simp: fetch_local_def useful_def)
next
  case (Cons t q)
  then have "fetch_local i s = Some (t, upd_worker i (\<lambda>w. w\<lparr>local_queue := q\<rparr>) s)" by (simp add: fetch_local_def)
  from act_fetch [OF at this] show ?thesis by (fastforce simp: useful_def)
qed

lemma sum_list_empty_mset: "\<forall>x \<in> set xs. f x = {#} \<Longrightarrow> (\<Sum>x\<leftarrow>xs. f x) = {#}"
  by (induction xs) auto

lemma queued_somewhere:
  assumes "queued s \<noteq> {#}" "workers s \<noteq> []"
  shows "\<exists>i < length (workers s). queue_of s i \<noteq> [] \<or> global_queue s \<noteq> []"
proof (cases "global_queue s = []")
  case True
  with assms(1) obtain u where "u \<in># (\<Sum>w\<leftarrow>workers s. mset (local_queue w))" by (auto simp: queued_def)
  then show ?thesis by (fastforce simp: in_set_conv_nth)
qed (use assms(2) in auto)

text \<open>From a state with a live task and no stop in sight some steps of the workers lower the measure.\<close>

lemma work_goes_on:
  assumes inv: "sched_inv s" "ctx_ok s" "flags_ok s" and idle: "stopper s = StopIdle" and "\<not> derailed s"
    and "workers s \<noteq> []" "live s \<noteq> {#}"
  shows "\<exists>es s'. run sched_step s es s' \<and> (\<forall>e \<in> set es. worker_of e \<noteq> None) \<and> (todo s' < todo s \<or> derailed s')"
proof -
  have one: ?thesis if "sched_act s e s'" "useful e" "worker_of e = Some i" for e s' i
    using useful_decreases [OF that(1) inv(1,2) that(2)] that assms(5)
    by (intro exI [of _ "[e]"] exI [of _ s']) (auto simp: sched_step_def intro: run.intros)
  have open_pc: "pc (workers s ! i) \<noteq> Exited" "\<not> should_stop (workers s ! i)" if "i < length (workers s)" for i
    using inv(3) idle that by (auto simp: flags_ok_def signalled_def)
  show ?thesis
  proof (cases "\<forall>i < length (workers s). pc (workers s ! i) = AtLoop \<or> pc (workers s ! i) = Polling")
    case False
    then obtain i where i: "i < length (workers s)" "pc (workers s ! i) \<noteq> AtLoop" "pc (workers s ! i) \<noteq> Polling" by blast
    from worker_not_stuck [OF inv(1) i(1)] open_pc [OF i(1)] i one show ?thesis by blast
  next
    case True
    then have "\<forall>w \<in> set (workers s). mset (held (pc w)) = {#}" by (force simp: in_set_conv_nth)
    then have "(\<Sum>w\<leftarrow>workers s. mset (held (pc w))) = {#}" by (rule sum_list_empty_mset)
    with assms(7) have "queued s \<noteq> {#}" by (simp add: live_queued)
    from queued_somewhere [OF this assms(6)] obtain i where
      i: "i < length (workers s)" "queue_of s i \<noteq> [] \<or> global_queue s \<noteq> []" by blast
    show ?thesis
    proof (cases "pc (workers s ! i) = Polling")
      case True
      with poll_fetches [OF inv(1) _ i(2)] i(1) one show ?thesis by blast
    next
      case False
      let ?p = "set_pc i Polling s"
      from False True i(1) have a: "sched_act s (EPoll i) ?p" using open_pc [OF i(1)] by (intro act_poll) auto
      have inv1: "sched_inv ?p" "ctx_ok ?p" using sched_act_inv [OF a inv(1)] act_ctx [OF a inv(1,2)] by auto
      have "queue_of ?p i \<noteq> [] \<or> global_queue ?p \<noteq> []" using i by (simp add: set_pc_def upd_worker_def)
      from poll_fetches [OF inv1(1) _ this] i(1) obtain e s' where
        e: "sched_act ?p e s'" "useful e" "worker_of e = Some i" by (auto simp: sched_simps)
      have "todo ?p \<le> todo s" by (rule idle_keeps_todo [OF a inv(1)]) (simp_all add: useful_def)
      moreover have "todo s' < todo ?p \<or> derailed s'" by (rule useful_decreases [OF e(1) inv1 e(2)])
      moreover have "\<not> derailed ?p" using assms(5) by (simp add: set_pc_def sched_simps)
      ultimately show ?thesis using a e assms(5)
        by (intro exI [of _ "[EPoll i, e]"] exI [of _ s']) (auto simp: sched_step_def intro!: run.intros)
    qed
  qed
qed

lemma run_keeps:
  assumes "run sched_step s es s'" "\<forall>e \<in> set es. worker_of e \<noteq> None"
    and "sched_inv s" "ctx_ok s" "flags_ok s"
  shows "sched_inv s' \<and> ctx_ok s' \<and> flags_ok s' \<and> stopper s' = stopper s \<and> length (workers s') = length (workers s)"
  using assms
proof (induction rule: run.induct)
  case (run_Cons s e t es u)
  then have a: "sched_act s e t" by (simp add: sched_step_def)
  from run_Cons.prems have "worker_of e \<noteq> None" "sched_inv s" by auto
  from act_flags [OF a this(2,1)] have "stopper t = stopper s" by (simp add: same_flags_def)
  with run_Cons a act_length [OF a] sched_act_inv [OF a] act_ctx [OF a] act_flags_ok [OF a] show ?case by simp
qed simp

lemma tasks_can_finish:
  assumes "sched_inv s" "ctx_ok s" "flags_ok s" "stopper s = StopIdle" "\<not> derailed s" "workers s \<noteq> []"
  shows "\<exists>es s'. run sched_step s es s' \<and> (\<forall>e \<in> set es. worker_of e \<noteq> None) \<and> (live s' = {#} \<or> derailed s')"
  using assms
proof (induction "todo s" arbitrary: s rule: less_induct)
  case less
  show ?case
  proof (cases "live s = {#}")
    case True
    then show ?thesis by (intro exI [of _ "[]"] exI [of _ s]) (auto intro: run.intros)
  next
    case False
    from work_goes_on [OF less.prems this] obtain es t where
      r: "run sched_step s es t" "\<forall>e \<in> set es. worker_of e \<noteq> None" "todo t < todo s \<or> derailed t" by blast
    show ?thesis
    proof (cases "derailed t")
      case False
      have "workers t \<noteq> []" using run_keeps [OF r(1,2) less.prems(1-3)] less.prems(6) by auto
      with less.hyps [of t] run_keeps [OF r(1,2) less.prems(1-3)] r(3) False less.prems(4) obtain fs u where
        "run sched_step t fs u" "\<forall>e \<in> set fs. worker_of e \<noteq> None" "live u = {#} \<or> derailed u" by auto
      with r(1,2) show ?thesis by (intro exI [of _ "es @ fs"] exI [of _ u]) (auto intro: run_append)
    qed (use r in blast)
  qed
qed

lemma run_actors:
  assumes "run sched_step s es s'" "\<forall>e \<in> set es. worker_of e \<noteq> None"
    and "sched_inv s" "ctx_ok s" "flags_ok s" "length (workers s) = 1"
  shows "\<forall>e \<in> set es. worker_of e = Some 0"
  using assms
proof (induction rule: run.induct)
  case (run_Cons s e t es u)
  then have a: "sched_act s e t" by (simp add: sched_step_def)
  have "worker_of e = Some 0" using worker_of_bound [OF a] run_Cons.prems by fastforce
  with run_Cons a act_length [OF a] sched_act_inv [OF a] act_ctx [OF a] act_flags_ok [OF a] show ?case by simp
qed simp

lemma single_stays: "run sched_step s es s' \<Longrightarrow> sched_inv s \<Longrightarrow> single s \<Longrightarrow> single s'"
  using single_sys.inv_run [of s es s'] by blast

lemma single_start: "single (start (new_scheduler hw 1))"
  by (auto simp: single_def start_def new_scheduler_def Let_def setup_preemption_def new_worker_def)


section \<open>stop returns\<close>

definition gate :: "worker_pc \<Rightarrow> nat" where
  "gate p = (case p of Exited \<Rightarrow> 0 | Polling \<Rightarrow> 2 | _ \<Rightarrow> 1)"

definition closing :: "sched \<Rightarrow> nat" where
  "closing s = todo s + (\<Sum>w\<leftarrow>workers s. gate (pc w))"

lemma gate_simps [simp]:
  "gate Exited = 0" "gate Polling = 2" "gate AtLoop = 1" "gate (Fetched t) = 1" "gate (InTask t) = 1"
  "gate (Spawning t u) = 1" "gate (Yielding t) = 1" "gate (Returned t) = 1" "gate Clearing = 1"
  by (simp_all add: gate_def)

lemma gate_own:
  "sched_act s e s' \<Longrightarrow> sched_inv s \<Longrightarrow> worker_of e = Some i \<Longrightarrow> e \<noteq> EPoll i \<Longrightarrow>
   gate (pc (workers s' ! i)) \<le> gate (pc (workers s ! i)) \<and> (\<not> useful e \<longrightarrow> gate (pc (workers s' ! i)) < gate (pc (workers s ! i)))"
proof (induction rule: sched_act.induct)
  case (act_steal s j lk draws t s')
  then have "taken t s s'" by (intro taken_fast) (auto simp: sched_inv_def)
  with act_steal show ?case by (auto simp: sched_simps useful_def dest!: taken_frame)
next
  case (act_fetch s j t s')
  then show ?case by (auto simp: sched_simps useful_def dest!: taken_local taken_frame)
next
  case (act_begin s j t now)
  then show ?case using held_task [of s j t]
    by (auto simp: begin_task_def leave_fiber_def track_current_def Let_def sched_simps useful_def
        split: option.splits prod.splits)
next
  case (act_after s j t)
  then show ?case using held_task [of s j t] by (auto simp: after_switch_def sched_simps useful_def)
qed (auto simp: complete_fiber_def leave_fiber_def yield_task_def clear_current_def sched_simps useful_def
      dest!: spawn_tasks split: option.splits)

lemma gates_step:
  assumes a: "sched_act s e s'" and inv: "sched_inv s" and i: "worker_of e = Some i"
  shows "(\<Sum>w\<leftarrow>workers s'. gate (pc w)) + gate (pc (workers s ! i))
       \<le> (\<Sum>w\<leftarrow>workers s. gate (pc w)) + gate (pc (workers s' ! i))"
  using act_parked [OF a inv] i
  by (intro sum_list_le_at [OF act_length [OF a inv, symmetric] worker_of_bound [OF a i]]) (auto simp: parked_def)

lemma closing_decreases:
  assumes a: "sched_act s e s'" and inv: "sched_inv s" "ctx_ok s" and i: "worker_of e = Some i"
    and stop: "\<forall>w \<in> set (workers s). should_stop w"
  shows "closing s' < closing s \<or> derailed s'"
proof -
  have ne: "e \<noteq> EPoll i"
    using a stop by (cases rule: sched_act.cases) auto
  note g = gate_own [OF a inv(1) i ne] and gs = gates_step [OF a inv(1) i]
  have "\<not> external_spawn e" using i by (cases e) auto
  then show ?thesis
    using useful_decreases [OF a inv] idle_keeps_todo [OF a inv(1)] g gs
    by (cases "useful e") (auto simp: closing_def)
qed

lemma closing_other:
  assumes a: "sched_act s e s'" and inv: "sched_inv s" "ctx_ok s" and "worker_of e = None" "\<not> external_spawn e"
  shows "closing s' \<le> closing s"
proof -
  have "pc (workers s' ! j) = pc (workers s ! j)" if "j < length (workers s)" for j
    using act_parked [OF a inv(1) _ that] assms(4) by (simp add: parked_def)
  then have "map pc (workers s') = map pc (workers s)"
    using act_length [OF a inv(1)] by (intro nth_equalityI) auto
  then have "map (gate \<circ> pc) (workers s') = map (gate \<circ> pc) (workers s)" by (metis map_map)
  moreover have "todo s' \<le> todo s"
    using assms(4,5) by (intro idle_keeps_todo [OF a inv(1)]) (cases e; simp add: useful_def)+
  ultimately show ?thesis by (simp add: closing_def o_def)
qed

text \<open>All flags are set: \<open>stop\<close> waits for the workers, or has seen all of them leave.\<close>

definition joining :: "sched \<Rightarrow> bool" where
  "joining s \<longleftrightarrow> sched_inv s \<and> ctx_ok s \<and> flags_ok s \<and>
     (stopper s = StopSignal (length (workers s)) \<or> stopper s = StopDone \<and> all_exited s)"

lemma joining_flags: "joining s \<Longrightarrow> \<forall>w \<in> set (workers s). should_stop w"
  by (auto simp: joining_def flags_ok_def signalled_def in_set_conv_nth)

lemma exited_idle: "sched_act s e s' \<Longrightarrow> all_exited s \<Longrightarrow> worker_of e = None"
  by (induction rule: sched_act.induct) (auto simp: all_exited_def dest: nth_mem)

lemma exited_stays:
  assumes a: "sched_act s e s'" and inv: "sched_inv s" and ex: "all_exited s"
  shows "all_exited s'"
  unfolding all_exited_def
proof
  fix w assume "w \<in> set (workers s')"
  then obtain j where j: "j < length (workers s)" "w = workers s' ! j"
    using act_length [OF a inv] by (auto simp: in_set_conv_nth)
  from act_parked [OF a inv _ j(1)] exited_idle [OF a ex] ex j show "pc w = Exited"
    by (auto simp: parked_def all_exited_def)
qed

lemma stopper_step:
  assumes a: "sched_act s e s'" and "sched_inv s"
  shows "stopper s = StopSignal (length (workers s)) \<Longrightarrow>
     stopper s' = StopSignal (length (workers s)) \<or> stopper s' = StopDone \<and> all_exited s"
    and "stopper s = StopDone \<Longrightarrow> stopper s' = StopDone"
proof -
  have w: "stopper s' = stopper s" if "worker_of e \<noteq> None"
    using act_flags [OF assms that] by (simp add: same_flags_def)
  show "stopper s = StopSignal (length (workers s)) \<Longrightarrow>
     stopper s' = StopSignal (length (workers s)) \<or> stopper s' = StopDone \<and> all_exited s"
    using a w by (cases rule: sched_act.cases)
      (auto simp: sched_simps timer_test_def preempt_long_running_tasks_def)
  show "stopper s = StopDone \<Longrightarrow> stopper s' = StopDone"
    using a w by (cases rule: sched_act.cases)
      (auto simp: sched_simps timer_test_def preempt_long_running_tasks_def)
qed

lemma joining_step: "sched_act s e s' \<Longrightarrow> joining s \<Longrightarrow> joining s'"
  using stopper_step [of s e s'] act_length [of s e s'] exited_stays [of s e s'] sched_act_inv [of s e s']
    act_ctx [of s e s'] act_flags_ok [of s e s'] by (auto simp: joining_def)

interpretation joining_sys: invariant_system sched_step joining
  by unfold_locales (auto simp: sched_step_def intro: joining_step)

lemma closing_bounded:
  "run sched_step s es s' \<Longrightarrow> joining s \<Longrightarrow> \<forall>e \<in> set es. \<not> external_spawn e \<Longrightarrow>
   length (filter (\<lambda>e. worker_of e \<noteq> None) es) \<le> closing s + (if derailed s' then 1 else 0)"
proof (induction rule: run.induct)
  case (run_Cons s e t es u)
  then have a: "sched_act s e t" by (simp add: sched_step_def)
  note j = run_Cons.prems(1) joining_step [OF a run_Cons.prems(1)]
  have inv: "sched_inv s" "ctx_ok s" using j by (auto simp: joining_def)
  show ?case
  proof (cases "derailed t")
    case True
    then have "es = [] \<and> u = t" using run_Cons.hyps(2) by (cases es) (auto simp: sched_step_def)
    with True show ?thesis by simp
  next
    case False
    have IH: "length (filter (\<lambda>e. worker_of e \<noteq> None) es) \<le> closing t + (if derailed u then 1 else 0)"
      using run_Cons.IH run_Cons.prems j by simp
    show ?thesis
    proof (cases "worker_of e")
      case None
      with closing_other [OF a inv] run_Cons.prems(2) IH show ?thesis by simp
    next
      case (Some i)
      with closing_decreases [OF a inv Some joining_flags [OF j(1)]] False IH show ?thesis by simp
    qed
  qed
qed simp

lemma joining_not_stuck:
  assumes "joining s" "\<not> derailed s"
  shows "stopper s = StopDone \<and> all_exited s
    \<or> (\<exists>e s'. sched_step s e s' \<and> (worker_of e \<noteq> None \<or> e = EStopped))"
proof (cases "all_exited s")
  case True
  with assms act_stopped [of s "length (workers s)"] show ?thesis
    by (auto simp: joining_def sched_step_def intro!: exI)
next
  case False
  then obtain i where "i < length (workers s)" "pc (workers s ! i) \<noteq> Exited"
    by (auto simp: all_exited_def in_set_conv_nth)
  with worker_not_stuck [of s i] assms show ?thesis by (fastforce simp: joining_def sched_step_def)
qed




lemma stop_schedule:
  "map_option (\<lambda>s. (derailed s, stopper s, length (workers s)))
     (exec_all [CStop, CTimer, CStopTimer, CStopSignal] (start (new_scheduler 0 1))) = Some (False, StopSignal 1, 1)"
  by code_simp


lemma started_task:
  "map_option (\<lambda>s. (stopper s, held (pc (workers s ! 0)), workers s \<noteq> []))
     (exec_all [CSpawn (SpawnThen Done (YieldTo Done Done Done)), CRegister 1, CPoll 0, CSteal 0 []]
       (start (new_scheduler 0 1))) = Some (StopIdle, [1], True)"
  by code_simp


end
