(* ===== verification/JSConcurrency.thy ===== *)
theory JSConcurrency
  imports Channel Scheduler
begin

text \<open>
  The end of \<open>src/concurrency/task.cc\<close>: \<open>ConcurrencyRuntime\<close>, a thin layer over the scheduler, and the
  namespace \<open>JSConcurrency\<close> with its tasks and named channels. Named channels are clients of the
  channel interface, stated as a locale. (\<open>with_timeout\<close> is in the theory \<open>Timeout\<close>.)
\<close>

section \<open>The channel interface\<close>

text \<open>
  What a client of a channel relies on: a successful \<open>put\<close> appends, \<open>get\<close> takes the oldest value,
  and it returns whenever there is one. \<^term>\<open>None\<close> stands for a call that blocks.
\<close>

locale mailbox =
  fixes contents :: "'c \<Rightarrow> 'a list"
    and put :: "'a \<Rightarrow> 'c \<Rightarrow> (bool \<times> 'c) option"
    and get :: "'c \<Rightarrow> ('a option \<times> 'c) option"
  assumes put_appends: "put x c = Some (True, c') \<Longrightarrow> contents c' = contents c @ [x]"
    and put_refused: "put x c = Some (False, c') \<Longrightarrow> c' = c"
    and get_oldest: "contents c = x # xs \<Longrightarrow> \<exists>c'. get c = Some (Some x, c') \<and> contents c' = xs"
begin

fun put_all :: "'a list \<Rightarrow> 'c \<Rightarrow> 'c option" where
  "put_all [] c = Some c"
| "put_all (x # xs) c =
     (case put x c of Some (True, c') \<Rightarrow> put_all xs c' | _ \<Rightarrow> None)"

fun get_n :: "nat \<Rightarrow> 'c \<Rightarrow> ('a list \<times> 'c) option" where
  "get_n 0 c = Some ([], c)"
| "get_n (Suc n) c =
     (case get c of
        Some (Some x, c') \<Rightarrow> (case get_n n c' of None \<Rightarrow> None | Some (xs, d) \<Rightarrow> Some (x # xs, d))
      | _ \<Rightarrow> None)"

lemma put_all_contents: "put_all xs c = Some d \<Longrightarrow> contents d = contents c @ xs"
  by (induction xs arbitrary: c) (auto split: option.splits bool.splits simp: put_appends)

lemma get_n_contents: "contents c = xs @ ys \<Longrightarrow> \<exists>d. get_n (length xs) c = Some (xs, d) \<and> contents d = ys"
proof (induction xs arbitrary: c)
  case (Cons x xs)
  then obtain c' where "get c = Some (Some x, c')" "contents c' = xs @ ys" using get_oldest [of c x "xs @ ys"] by auto
  with Cons.IH [of c'] show ?case by auto
qed simp

lemma put_get_all:
  assumes "contents c = []" "put_all xs c = Some d"
  shows "\<exists>e. get_n (length xs) d = Some (xs, e) \<and> contents e = []"
  using get_n_contents [of d xs "[]"] put_all_contents [OF assms(2)] assms(1) by simp

end

interpretation chan: mailbox buffer send receive
proof
  fix x :: 'a and c c' :: "'a channel" and xs
  show "send x c = Some (True, c') \<Longrightarrow> buffer c' = buffer c @ [x]"
    by (auto simp: send_def send_resume_def push_value_def queue_push_def split: if_splits)
  show "send x c = Some (False, c') \<Longrightarrow> c' = c"
    by (auto simp: send_def send_resume_def split: if_splits)
  show "buffer c = x # xs \<Longrightarrow> \<exists>c'. receive c = Some (Some x, c') \<and> buffer c' = xs"
    by (simp add: receive_def recv_ready_def)
qed

section \<open>ConcurrencyRuntime\<close>

record conc_runtime =
  scheduler :: "sched option"

text \<open>\<open>None\<close>: the call waits for ever; \<open>Inl\<close>: it throws.\<close>

definition rt_initialize :: "nat \<Rightarrow> nat \<Rightarrow> conc_runtime \<Rightarrow> conc_runtime \<times> bool" where
  "rt_initialize hardware_concurrency n r =
     (r\<lparr>scheduler := Some (start (new_scheduler hardware_concurrency n))\<rparr>, True)"

definition rt_shutdown :: "conc_runtime \<Rightarrow> conc_runtime option" where
  "rt_shutdown r =
     (case scheduler r of
        None \<Rightarrow> Some r
      | Some s \<Rightarrow> if wait_all_returns s then Some (r\<lparr>scheduler := None\<rparr>) else None)"

definition rt_kode :: "task \<Rightarrow> nat \<Rightarrow> u64 \<Rightarrow> fiber \<Rightarrow> conc_runtime \<Rightarrow> string + (tid \<times> conc_runtime)" where
  "rt_kode raw now data func r =
     (case scheduler r of
        None \<Rightarrow> Inl ''ConcurrencyRuntime not initialized''
      | Some s \<Rightarrow> (case spawn raw now data func s of (t, s1) \<Rightarrow> Inr (t, r\<lparr>scheduler := Some s1\<rparr>)))"

text \<open>\<open>yield\<close>: without a scheduler nothing happens; \<open>thread\<close> is the worker that calls it, if one does.\<close>

definition rt_yield :: "nat option \<Rightarrow> nat \<Rightarrow> conc_runtime \<Rightarrow> string + conc_runtime" where
  "rt_yield thread now r =
     (case scheduler r of
        None \<Rightarrow> Inr r
      | Some s \<Rightarrow>
         (case yield_current_task thread now s of
            Inl e \<Rightarrow> Inl e
          | Inr s1 \<Rightarrow> Inr (r\<lparr>scheduler := Some s1\<rparr>)))"

definition rt_join_all :: "conc_runtime \<Rightarrow> unit option" where
  "rt_join_all r =
     (case scheduler r of
        None \<Rightarrow> Some ()
      | Some s \<Rightarrow> if wait_all_returns s then Some () else None)"

definition rt_get_task_count :: "conc_runtime \<Rightarrow> u64" where
  "rt_get_task_count r = (case scheduler r of None \<Rightarrow> 0 | Some s \<Rightarrow> get_active_task_count s)"

definition rt_print_stats :: "conc_runtime \<Rightarrow> string list" where
  "rt_print_stats r =
     (case scheduler r of
        None \<Rightarrow> []
      | Some s \<Rightarrow> [''[Stats] Active tasks: '' @ nat_to_dec (unat (get_active_task_count s)),
                   ''[Stats] Worker threads: '' @ nat_to_dec (num_workers s)])"

section \<open>JSConcurrency\<close>

text \<open>The text that a task with \<open>console.log\<close> in its code prints.\<close>

definition find_last_quote :: "string \<Rightarrow> nat option" where
  "find_last_quote s =
     (case (str_rfind_char (CHR 0x27) s, str_rfind_char (CHR 0x22) s) of
        (Some i, Some j) \<Rightarrow> Some (max i j)
      | (Some i, None) \<Rightarrow> Some i
      | (None, j) \<Rightarrow> j)"

definition log_message :: "string \<Rightarrow> string option" where
  "log_message js_code =
     (case (case str_find [CHR 0x27] js_code of Some i \<Rightarrow> Some i | None \<Rightarrow> str_find [CHR 0x22] js_code) of
        None \<Rightarrow> None
      | Some i \<Rightarrow>
         (case find_last_quote js_code of
            None \<Rightarrow> None
          | Some j \<Rightarrow> if i < j then Some (substr js_code (i + 1) (j - i - 1)) else None))"

text \<open>
  The function that \<open>spawn_task\<close> gives to the scheduler, as a fiber; \<open>sleep_for\<close> makes no call and no
  output. Only \<open>yield\<close> can throw, and the exception is caught and reported.
\<close>

definition js_task :: "string \<Rightarrow> fiber" where
  "js_task js_code =
     (let rest = PrintThen (''[JSTask] Completed: '' @ js_code) Done;
          report = (\<lambda>e. PrintThen (''[JSTask] Error: '' @ e) rest)
      in PrintThen (''[JSTask] Executing: '' @ js_code)
        (if str_contains ''console.log'' js_code then
           (case log_message js_code of None \<Rightarrow> rest | Some m \<Rightarrow> PrintThen m rest)
         else if str_contains ''setTimeout'' js_code then PrintThen ''[JSTask] Timer fired'' rest
         else if str_contains ''yield'' js_code then
           YieldTo rest (report ''Task cancelled'') (report ''Task cancelled during yield'')
         else rest))"

text \<open>The global runtime is made on first use.\<close>

definition initialize_runtime :: "nat \<Rightarrow> conc_runtime option \<Rightarrow> conc_runtime" where
  "initialize_runtime hw g =
     (case g of None \<Rightarrow> fst (rt_initialize hw 0 \<lparr> scheduler = None \<rparr>) | Some r \<Rightarrow> r)"

definition spawn_task ::
  "nat \<Rightarrow> task \<Rightarrow> nat \<Rightarrow> u64 \<Rightarrow> string \<Rightarrow> conc_runtime option \<Rightarrow> string + conc_runtime option" where
  "spawn_task hw raw now data js_code g =
     (case rt_kode raw now data (js_task js_code) (initialize_runtime hw g) of
        Inl e \<Rightarrow> Inl e
      | Inr (t, r) \<Rightarrow> Inr (Some r))"

definition js_yield_task :: "nat option \<Rightarrow> nat \<Rightarrow> conc_runtime option \<Rightarrow> string + conc_runtime option" where
  "js_yield_task thread now g =
     (case g of
        None \<Rightarrow> Inr None
      | Some r \<Rightarrow> (case rt_yield thread now r of Inl e \<Rightarrow> Inl e | Inr r1 \<Rightarrow> Inr (Some r1)))"

text \<open>A first call starts the runtime, so that \<open>spawn_task\<close> never throws on a fresh process.\<close>

lemma spawn_task_starts: "\<exists>r. spawn_task hw raw now data js_code None = Inr (Some r) \<and> scheduler r \<noteq> None"
  by (auto simp: spawn_task_def initialize_runtime_def rt_initialize_def rt_kode_def split: prod.splits)

text \<open>Each of the three functions has its own static map.\<close>

record js_registry =
  create_map :: "string \<rightharpoonup> string channel"
  send_map :: "string \<rightharpoonup> string channel"
  receive_map :: "string \<rightharpoonup> string channel"
  js_out :: "string list"

definition js_init :: js_registry where
  "js_init = \<lparr> create_map = Map.empty, send_map = Map.empty, receive_map = Map.empty, js_out = [] \<rparr>"

definition say :: "string \<Rightarrow> js_registry \<Rightarrow> js_registry" where
  "say t r = r\<lparr>js_out := js_out r @ [t]\<rparr>"

abbreviation q1 :: "string \<Rightarrow> string" where "q1 s \<equiv> [CHR 0x27] @ s @ [CHR 0x27]"

definition create_channel :: "string \<Rightarrow> nat \<Rightarrow> js_registry \<Rightarrow> js_registry" where
  "create_channel n cap r =
     say (''[JSChannel] Created channel '' @ q1 n @ '' with capacity '' @ nat_to_dec cap)
       (r\<lparr>create_map := (create_map r)(n \<mapsto> new_channel cap)\<rparr>)"

definition send_to_channel :: "string \<Rightarrow> string \<Rightarrow> js_registry \<Rightarrow> js_registry option" where
  "send_to_channel n x r =
     (case send_map r n of
        None \<Rightarrow> Some (say (''[JSChannel] Channel '' @ q1 n @ '' not found'') r)
      | Some c \<Rightarrow>
         (case send x c of
            None \<Rightarrow> None
          | Some (sent, c') \<Rightarrow>
              Some (say (''[JSChannel] '' @ (if sent then ''Sent'' else ''Failed to send'') @ '' '' @ q1 x
                      @ '' to channel '' @ q1 n) (r\<lparr>send_map := (send_map r)(n \<mapsto> c')\<rparr>))))"

definition receive_from_channel :: "string \<Rightarrow> js_registry \<Rightarrow> (string \<times> js_registry) option" where
  "receive_from_channel n r =
     (case receive_map r n of
        None \<Rightarrow> Some ([], say (''[JSChannel] Channel '' @ q1 n @ '' not found'') r)
      | Some c \<Rightarrow>
         (case receive c of
            None \<Rightarrow> None
          | Some (Some x, c') \<Rightarrow>
              Some (x, say (''[JSChannel] Received '' @ q1 x @ '' from channel '' @ q1 n)
                     (r\<lparr>receive_map := (receive_map r)(n \<mapsto> c')\<rparr>))
          | Some (None, c') \<Rightarrow>
              Some ([], say (''[JSChannel] Channel '' @ q1 n @ '' closed or empty'')
                      (r\<lparr>receive_map := (receive_map r)(n \<mapsto> c')\<rparr>))))"

datatype js_call = Create string nat | Send string string | Receive string

definition js_call_step :: "js_call \<Rightarrow> js_registry \<Rightarrow> js_registry option" where
  "js_call_step c r =
     (case c of
        Create n cap \<Rightarrow> Some (create_channel n cap r)
      | Send n x \<Rightarrow> send_to_channel n x r
      | Receive n \<Rightarrow> map_option snd (receive_from_channel n r))"

fun js_calls :: "js_call list \<Rightarrow> js_registry \<Rightarrow> js_registry option" where
  "js_calls [] r = Some r"
| "js_calls (c # cs) r = (case js_call_step c r of None \<Rightarrow> None | Some r' \<Rightarrow> js_calls cs r')"

definition disconnected :: "js_registry \<Rightarrow> bool" where
  "disconnected r \<longleftrightarrow> send_map r = Map.empty \<and> receive_map r = Map.empty"

lemma js_call_disconnected:
  "disconnected r \<Longrightarrow> \<exists>r'. js_call_step c r = Some r' \<and> disconnected r'"
  by (cases c) (auto simp: disconnected_def js_call_step_def create_channel_def send_to_channel_def
      receive_from_channel_def say_def)

lemma js_calls_disconnected:
  "disconnected r \<Longrightarrow> \<exists>r'. js_calls cs r = Some r' \<and> disconnected r'"
proof (induction cs arbitrary: r)
  case (Cons c cs)
  with js_call_disconnected [OF Cons.prems, of c] show ?case by auto
qed simp

text \<open>
  No value ever passes through JSConcurrency's named channels: since each function keeps its
  own static map and only create\_channel fills one, after any calls a send reports that the channel
  is not found and a receive returns the empty string.
\<close>
theorem js_channels_disconnected:
  "\<exists>r. js_calls cs js_init = Some r
     \<and> send_to_channel n x r = Some (say (''[JSChannel] Channel '' @ q1 n @ '' not found'') r)
     \<and> receive_from_channel n r = Some ([], say (''[JSChannel] Channel '' @ q1 n @ '' not found'') r)"
proof -
  have "disconnected js_init" by (simp add: disconnected_def js_init_def)
  with js_calls_disconnected [of js_init cs] obtain r where "js_calls cs js_init = Some r" "disconnected r" by blast
  then show ?thesis by (auto simp: disconnected_def send_to_channel_def receive_from_channel_def)
qed

end
