(* ===== verification/Timeout.thy ===== *)
theory Timeout
  imports JSConcurrency Scheduler_Work
begin

text \<open>
  \<open>ConcurrencyRuntime::with_timeout\<close> of \<open>src/concurrency/task.cc\<close>: the task, its watchdog, and the
  watchdog running beside the scheduler. The scheduler's registry of cancellable tasks is shown to be
  complete, so that a time-out reaches the task wherever it is.
\<close>

section \<open>Spawning the task and its watchdog\<close>

text \<open>The \<open>try\<close> block around the task: every exception of \<open>f\<close> ends in \<open>h\<close>.\<close>

primrec catch_all :: "(string \<Rightarrow> fiber) \<Rightarrow> fiber \<Rightarrow> fiber" where
  "catch_all h Done = Done"
| "catch_all h (Throw m) = h m"
| "catch_all h (YieldTo k c d) = YieldTo (catch_all h k) (catch_all h c) (catch_all h d)"
| "catch_all h (SpawnThen f k) = SpawnThen f (catch_all h k)"
| "catch_all h (CancelThen t k) = CancelThen t (catch_all h k)"
| "catch_all h (PrintThen m k) = PrintThen m (catch_all h k)"

definition timeout_line :: "tid \<Rightarrow> int \<Rightarrow> string" where
  "timeout_line main_task timeout =
     ''[Timeout] Cancellation requested for task '' @ nat_to_dec main_task @ '' after '' @ int_to_dec timeout @ ''ms''"

text \<open>
  \<open>late\<close>: what the task reads in \<open>timed_out\<close> when it catches an exception; \<open>expires\<close>: how the
  watchdog's loop ends. Both are decided by the clock, which the second half of this theory models.
\<close>

definition timed_task :: "bool \<Rightarrow> fiber \<Rightarrow> fiber" where
  "timed_task late func = catch_all (\<lambda>e. if late then Done else PrintThen (''[Task] Exception: '' @ e) Done) func"

definition watchdog_task :: "bool \<Rightarrow> int \<Rightarrow> tid \<Rightarrow> fiber" where
  "watchdog_task expires timeout main_task =
     (if expires then CancelThen main_task (PrintThen (timeout_line main_task timeout) Done) else Done)"

definition with_timeout ::
  "task \<Rightarrow> task \<Rightarrow> nat \<Rightarrow> u64 \<Rightarrow> bool \<Rightarrow> bool \<Rightarrow> int \<Rightarrow> fiber \<Rightarrow> conc_runtime
     \<Rightarrow> string + (tid \<times> conc_runtime)" where
  "with_timeout raw raw' now data late expires timeout func r =
     (case rt_kode raw now data (timed_task late func) r of
        Inl e \<Rightarrow> Inl e
      | Inr (main_task, r1) \<Rightarrow>
         (case rt_kode raw' now data (watchdog_task expires timeout main_task) r1 of
            Inl e \<Rightarrow> Inl e
          | Inr (dog_task, r2) \<Rightarrow> Inr (main_task, r2)))"

lemma spawn_fields:
  "spawn raw now data f s = (t, s1) \<Longrightarrow>
     t = next_task_id s \<and> next_task_id s1 = t + 1 \<and> active_tasks s1 = active_tasks s + 1
     \<and> global_queue s1 = global_queue s @ [t] \<and> active_task_map s1 = insert t (active_task_map s)
     \<and> registering s1 = registering s
     \<and> tasks s1 = (tasks s)(t \<mapsto> \<lparr>obj = new_task raw t now data, code = f, uc_link = None\<rparr>)"
  by (auto simp: spawn_def spawn_enqueue_def spawn_register_def schedule_task_def queue_push_def Let_def)

text \<open>
  with\_timeout on a started runtime never throws: it spawns the task and its watchdog with two
  fresh ids, queued in this order and counted, and the task is registered for cancellation.
\<close>
theorem with_timeout_spawns:
  assumes "scheduler r = Some s"
  shows "\<exists>s2. with_timeout raw raw' now data late expires timeout f r
        = Inr (next_task_id s, r\<lparr>scheduler := Some s2\<rparr>)
    \<and> active_tasks s2 = active_tasks s + 2
    \<and> global_queue s2 = global_queue s @ [next_task_id s, next_task_id s + 1]
    \<and> next_task_id s \<in> active_task_map s2 \<and> registering s2 = registering s"
proof -
  obtain t s1 where 1: "spawn raw now data (timed_task late f) s = (t, s1)" by fastforce
  obtain u s2 where 2: "spawn raw' now data (watchdog_task expires timeout t) s1 = (u, s2)" by fastforce
  have "with_timeout raw raw' now data late expires timeout f r = Inr (t, r\<lparr>scheduler := Some s2\<rparr>)"
    using assms 1 2 by (simp add: with_timeout_def rt_kode_def)
  with spawn_fields [OF 1] spawn_fields [OF 2] show ?thesis by (intro exI [of _ s2]) auto
qed

text \<open>The wrapper never lets an exception through to \<open>invoke\<close>.\<close>

primrec throws :: "fiber \<Rightarrow> bool" where
  "throws Done = False"
| "throws (Throw m) = True"
| "throws (YieldTo k c d) = (throws k \<or> throws c \<or> throws d)"
| "throws (SpawnThen f k) = throws k"
| "throws (CancelThen t k) = throws k"
| "throws (PrintThen m k) = throws k"

lemma timed_task_catches: "\<not> throws (timed_task late f)"
  unfolding timed_task_def by (induction f) auto

section \<open>The registry of tasks\<close>

text \<open>
  A live task that \<open>cancel_task\<close> would not find any more has been cancelled; only a task whose
  \<open>spawn\<close> is not finished is not yet registered.
\<close>

definition registry_ok :: "sched \<Rightarrow> bool" where
  "registry_ok s \<longleftrightarrow> (\<forall>t x. t \<in># live s \<longrightarrow> tasks s t = Some x \<longrightarrow> t \<notin> set (registering s) \<longrightarrow>
     t \<notin> active_task_map s \<longrightarrow> is_cancelled (obj x))"

definition still_cancelled :: "tid \<Rightarrow> sched \<Rightarrow> sched \<Rightarrow> bool" where
  "still_cancelled t s s' \<longleftrightarrow> (\<forall>x. tasks s t = Some x \<longrightarrow>
     (\<exists>x'. tasks s' t = Some x' \<and> (is_cancelled (obj x) \<longrightarrow> is_cancelled (obj x'))))"

lemma still_same: "tasks s' t = tasks s t \<Longrightarrow> still_cancelled t s s'"
  by (simp add: still_cancelled_def)

lemma still_trans: "still_cancelled t s s1 \<Longrightarrow> still_cancelled t s1 s2 \<Longrightarrow> still_cancelled t s s2"
  by (fastforce simp: still_cancelled_def)

lemma still_upd:
  "(\<And>x. is_cancelled (obj x) \<Longrightarrow> is_cancelled (obj (g x))) \<Longrightarrow> tasks s' = tasks (upd_task u g s) \<Longrightarrow> still_cancelled t s s'"
  by (auto simp: still_cancelled_def sched_simps)

lemma still_cancel: "still_cancelled t s (cancel_task u s)"
  by (auto simp: still_cancelled_def cancel_task_def cancel_obj_def cancel_def is_cancelled_def Let_def sched_simps)

lemma still_set_code: "still_cancelled t s s1 \<Longrightarrow> still_cancelled t s (set_code u k s1)"
  by (erule still_trans) (rule still_upd [of "\<lambda>x. x\<lparr>code := k\<rparr>" _ u], simp_all add: set_code_def)

lemma still_spawn: "sched_inv s \<Longrightarrow> spawn_enqueue raw now data f s = (u, s') \<Longrightarrow> still_cancelled t s s'"
  by (auto simp: still_cancelled_def sched_inv_fresh dest!: spawn_tasks)

lemma enter_fiber_cancelled: "enter_fiber i x = (b, x') \<Longrightarrow> is_cancelled (obj x') = is_cancelled (obj x)"
  by (auto simp: enter_fiber_def is_cancelled_def set_state_def yield_after_def Let_def split: if_splits fiber.splits)

lemma still_begin: "still_cancelled t s (begin_task i u now s)"
  by (auto simp: still_cancelled_def begin_task_def Let_def sched_simps
      split: option.splits prod.splits dest: enter_fiber_cancelled)

lemma still_complete: "still_cancelled t s (complete_fiber i u log s)"
  by (rule still_upd [of "\<lambda>x. x\<lparr>obj := set_state COMPLETED (obj x)\<rparr>" _ u])
     (simp_all add: complete_fiber_def sched_simps set_state_def is_cancelled_def)

lemma still_yield: "still_cancelled t s (yield_task i u now s)"
  by (rule still_upd [of "\<lambda>x. x\<lparr>obj := yield_commit now (obj x)\<rparr>" _ u])
     (simp_all add: yield_task_def sched_simps yield_commit_def is_cancelled_def)

lemma act_still: "sched_act s e s' \<Longrightarrow> sched_inv s \<Longrightarrow> still_cancelled t s s'"
proof (induction rule: sched_act.induct)
  case (act_fetch s i u s')
  then have "taken u s s'" by (auto intro: taken_local)
  then show ?case by (auto intro!: still_same simp: sched_simps dest: taken_frame)
next
  case (act_steal s i lk draws u s')
  then have "taken u s s'" by (intro taken_fast) (auto simp: sched_inv_def)
  then show ?case by (auto intro!: still_same simp: sched_simps dest: taken_frame)
next
  case (act_task_spawn s i u x f k raw now data v s')
  then have "still_cancelled t s (set_code u k s')" by (blast intro: still_set_code still_spawn)
  then show ?case by (rule still_trans) (simp add: still_same sched_simps)
next
  case (act_task_cancel s i u x v k)
  then show ?case by (intro still_set_code still_cancel)
next
  case (act_print s i u x m k)
  then show ?case by (intro still_set_code still_same) simp
next
  case (act_yield_throw s i u x k c d now e)
  then show ?case by (intro still_set_code still_same) simp
next
  case (act_spawn raw now data f s u s')
  then show ?case by (intro still_spawn)
next
  case (act_begin s i u now)
  then show ?case by (intro still_begin)
next
  case (act_cancel s u)
  then show ?case by (intro still_cancel)
next
  case (act_finish s i u x)
  then show ?case by (intro still_complete)
next
  case (act_throw s i u x m)
  then show ?case by (intro still_complete)
next
  case (act_yield s i u now)
  then show ?case by (intro still_yield)
qed (auto intro!: still_same simp: sched_simps)

text \<open>No step brings a task back: what is live was live before or is new.\<close>

lemma live_set_pc_same:
  "i < length (workers s) \<Longrightarrow> held p = held (pc (workers s ! i)) \<Longrightarrow> live (set_pc i p s) = live s"
  using live_set_pc [of i s p] by simp

lemma live_map_workers:
  "(\<And>w. wtasks (f w) = wtasks w) \<Longrightarrow> live (s\<lparr>workers := map f (workers s)\<rparr>) = live s"
  by (simp add: live_def o_def)

lemma live_leave:
  "i < length (workers s) \<Longrightarrow> held (pc (workers s ! i)) = [t] \<Longrightarrow> live (leave_fiber i t s) = live s"
  by (auto simp: leave_fiber_def live_set_pc_same sched_simps split: option.split)

lemma live_begin:
  assumes "at s i (Fetched t)"
  shows "live (begin_task i t now s) = live s"
proof -
  have l: "live (track_current i t now s) = live s"
    unfolding track_current_def by (rule live_upd_worker_same) (simp add: wtasks_def)
  have "live (leave_fiber i t (upd_task t g (track_current i t now s))) = live s"
    "live (set_pc i (InTask t) (upd_task t g (track_current i t now s))) = live s" for g
    using assms l by (simp_all add: live_leave live_set_pc_same sched_simps track_current_def)
  then show ?thesis by (auto simp: begin_task_def Let_def split: option.split prod.split)
qed

lemma live_after:
  assumes "at s i (Returned t)"
  shows "live (after_switch i t s) = live s \<or> live (after_switch i t s) = live s - {#t#}"
proof -
  let ?push = "upd_worker i (\<lambda>w. w\<lparr>local_queue := queue_push t (local_queue w)\<rparr>) s"
  have "live (set_pc i Clearing (s\<lparr>active_tasks := n\<rparr>)) = live s - {#t#}" for n
    using live_set_pc [of i "s\<lparr>active_tasks := n\<rparr>" Clearing] assms by (simp add: sched_simps)
      (metis add_mset_remove_trivial)
  moreover have "live (set_pc i Clearing ?push) = live s"
    using live_upd_worker [of i s "\<lambda>w. w\<lparr>local_queue := queue_push t (local_queue w)\<rparr>"]
      live_set_pc [of i ?push Clearing] assms by (simp add: sched_simps wtasks_def queue_push_def)
  ultimately show ?thesis by (auto simp: after_switch_def split: option.split)
qed

lemma live_frames:
  "live (cancel_task t s) = live s" "live (spawn_register t s) = live s" "live (timer_test s) = live s"
  "live (stop_begin s) = live s" "live (stop_signal i s) = live s"
  "pc (workers s ! i) = Clearing \<Longrightarrow> live (clear_current i s) = live s"
proof -
  have "live (upd_worker i (\<lambda>w. w\<lparr>should_stop := True\<rparr>) s) = live s"
    by (rule live_upd_worker_same) (simp add: wtasks_def)
  then show "live (stop_signal i s) = live s" by (simp add: stop_signal_def sched_simps)
  show "pc (workers s ! i) = Clearing \<Longrightarrow> live (clear_current i s) = live s"
    unfolding clear_current_def by (rule live_upd_worker_same) (simp add: wtasks_def)
qed (simp_all add: live_def cancel_task_def upd_task_def spawn_register_def timer_test_def stop_begin_def Let_def)

lemma live_spawn:
  "spawn_enqueue raw now data f s = (t, s') \<Longrightarrow> live s' = add_mset (next_task_id s) (live s)"
  by (auto simp: live_def dest!: spawn_tasks)

text \<open>Only spawning adds a task, and only the return from a task can remove one.\<close>

fun spawn_of :: "sched_event \<Rightarrow> tid option" where
  "spawn_of (ESpawn t) = Some t" | "spawn_of (ETaskSpawn i t) = Some t" | "spawn_of _ = None"

fun after_of :: "sched_event \<Rightarrow> tid option" where
  "after_of (EAfter i t) = Some t" | "after_of _ = None"

lemma act_live_same:
  "sched_act s e s' \<Longrightarrow> sched_inv s \<Longrightarrow> spawn_of e = None \<Longrightarrow> after_of e = None \<Longrightarrow> live s' = live s"
proof (induction rule: sched_act.induct)
  case (act_fetch s i t s')
  then have tk: "taken t s s'" by (auto intro: taken_local)
  with live_set_pc [of i s' "Fetched t"] taken_live [OF tk] taken_frame [OF tk] act_fetch show ?case by auto
next
  case (act_steal s i lk draws t s')
  then have tk: "taken t s s'" by (intro taken_fast) (auto simp: sched_inv_def)
  with live_set_pc [of i s' "Fetched t"] taken_live [OF tk] taken_frame [OF tk] act_steal show ?case by auto
next
  case (act_preempt s now)
  then show ?case
    by (auto simp: preempt_long_running_tasks_def sched_simps live_map_workers wtasks_def split: option.splits)
qed (auto simp: live_frames live_begin complete_fiber_def live_leave yield_task_def live_set_pc_same set_code_def sched_simps)

lemma act_live_spawn:
  assumes "sched_act s e s'" "spawn_of e = Some t"
  shows "t = next_task_id s \<and> live s' = add_mset t (live s)"
  using assms
proof (cases rule: sched_act.cases)
  case (act_task_spawn i u x f k raw now data v s1)
  then have "live s' = live s1"
    by (auto simp: live_set_pc_same set_code_def sched_simps dest!: spawn_tasks)
  with act_task_spawn live_spawn [of raw now data f s v s1] assms(2) show ?thesis by (auto dest!: spawn_tasks)
qed (auto dest: spawn_tasks live_spawn)

lemma act_live_after:
  assumes "sched_act s e s'" "after_of e = Some t"
  shows "t \<in># live s \<and> (live s' = live s \<or> live s' = live s - {#t#})"
  using assms
proof (cases rule: sched_act.cases)
  case (act_after i u)
  with assms(2) live_after [of i s t] held_live [of i s t] show ?thesis by simp
qed simp_all

lemma act_live: "sched_act s e s' \<Longrightarrow> sched_inv s \<Longrightarrow> u \<in># live s' \<Longrightarrow> u \<in># live s \<or> u = next_task_id s"
  using act_live_same [of s e s'] act_live_spawn [of s e s'] act_live_after [of s e s']
  by (cases "spawn_of e"; cases "after_of e") (auto dest: in_diffD)

text \<open>Registering, cancelling and spawning are the only steps that touch the registry.\<close>

definition same_registry :: "sched \<Rightarrow> sched \<Rightarrow> bool" where
  "same_registry s s' \<longleftrightarrow> active_task_map s' = active_task_map s \<and> registering s' = registering s
     \<and> next_task_id s' = next_task_id s"

lemma registry_frame:
  "same_registry s (upd_worker i f s)" "same_registry s (upd_task t g s)" "same_registry s (set_pc i p s)"
  "same_registry s (leave_fiber i t s)" "same_registry s (clear_current i s)" "same_registry s (timer_test s)"
  "same_registry s (stop_begin s)" "same_registry s (stop_signal i s)" "same_registry s (preempt_long_running_tasks now s)"
  "same_registry s (begin_task i t now s)" "same_registry s (after_switch i t s)" "same_registry s (set_code t k s)"
  by (auto simp: same_registry_def upd_worker_def upd_task_def set_pc_def leave_fiber_def clear_current_def timer_test_def
      stop_begin_def stop_signal_def preempt_long_running_tasks_def begin_task_def track_current_def after_switch_def
      set_code_def Let_def split: option.splits prod.splits)

lemma taken_registry: "taken t s s' \<Longrightarrow> same_registry s s'"
  by (auto simp: taken_def same_registry_def upd_worker_def)

lemma registry_trans: "same_registry s t \<Longrightarrow> same_registry t u \<Longrightarrow> same_registry s u"
  by (simp add: same_registry_def)

lemma cancel_task_flags:
  assumes "t \<in> active_task_map s" "t \<in># live s" "tasks s t = Some x"
  shows "tasks (cancel_task t s) t = Some (cancel_obj x)"
proof -
  have "task_alive s t" using assms(2) by (auto simp: task_alive_def live_def wtasks_def)
  with assms(1,3) show ?thesis by (simp add: cancel_task_def upd_task_def Let_def)
qed

lemma cancel_fields:
  "registering (cancel_task t s) = registering s"
  "active_task_map (cancel_task t s) = active_task_map s - {t}" "next_task_id (cancel_task t s) = next_task_id s"
  by (auto simp: cancel_task_def upd_task_def Let_def)

lemma cancel_tasks_dom: "tasks (cancel_task t s) u = None \<longleftrightarrow> tasks s u = None"
  by (simp add: cancel_task_def upd_task_def Let_def)

lemma cancel_registry:
  assumes r: "registry_ok s"
  shows "registry_ok (cancel_task t s)"
  unfolding registry_ok_def cancel_fields live_frames
proof (intro allI impI)
  fix u x' assume u: "u \<in># live s" "tasks (cancel_task t s) u = Some x'" "u \<notin> set (registering s)" "u \<notin> active_task_map s - {t}"
  obtain x where x: "tasks s u = Some x" using u(2) cancel_tasks_dom [of t s u] by (cases "tasks s u") auto
  show "is_cancelled (obj x')"
  proof (cases "u \<in> active_task_map s")
    case True
    with u(4) have "u = t" by simp
    with cancel_task_flags [OF True u(1) x] u(2) show ?thesis by (auto simp: cancel_obj_def cancel_def is_cancelled_def)
  next
    case False
    with r u(1,3) x have "is_cancelled (obj x)" by (simp add: registry_ok_def)
    with still_cancel [of u s t] x u(2) show ?thesis by (auto simp: still_cancelled_def)
  qed
qed

text \<open>A step that leaves the registry alone and adds no task.\<close>

lemma registry_kept:
  assumes a: "sched_act s e s'" and inv: "sched_inv s" and r: "registry_ok s" and same: "same_registry s s'"
  shows "registry_ok s'"
  unfolding registry_ok_def
proof (intro allI impI)
  fix u x' assume u: "u \<in># live s'" "tasks s' u = Some x'" "u \<notin> set (registering s')" "u \<notin> active_task_map s'"
  have inv': "sched_inv s'" by (rule sched_act_inv [OF a inv])
  with u(1) same have "u \<noteq> next_task_id s" by (force simp: sched_inv_def same_registry_def)
  with act_live [OF a inv u(1)] have l: "u \<in># live s" by simp
  then obtain x where x: "tasks s u = Some x" using live_task [OF inv] by blast
  with r l u(3,4) same have "is_cancelled (obj x)" by (simp add: registry_ok_def same_registry_def)
  with act_still [OF a inv, of u] x u(2) show "is_cancelled (obj x')" by (auto simp: still_cancelled_def)
qed

lemma spawn_registry:
  assumes "spawn_enqueue raw now data f s = (t, s')"
  shows "registering s' = t # registering s" "active_task_map s' = active_task_map s" "next_task_id s' = Suc t"
  using assms by (auto simp: spawn_enqueue_def schedule_task_def Let_def)

lemma registry_spawn:
  assumes sp: "spawn_enqueue raw now data f s = (t, s1)" and inv: "sched_inv s" and r: "registry_ok s"
  shows "registry_ok s1"
  unfolding registry_ok_def spawn_registry [OF sp]
proof (intro allI impI)
  fix u x' assume u: "u \<in># live s1" "tasks s1 u = Some x'" "u \<notin> set (t # registering s)" "u \<notin> active_task_map s"
  with spawn_tasks [OF sp] live_spawn [OF sp] have "u \<in># live s" "tasks s u = Some x'" by auto
  with r u show "is_cancelled (obj x')" by (simp add: registry_ok_def)
qed

lemma registry_register: "registry_ok s \<Longrightarrow> registry_ok (spawn_register t s)"
  unfolding registry_ok_def live_frames by (auto simp: spawn_register_def)

lemma registry_cong:
  "registry_ok s \<Longrightarrow> live s' = live s \<Longrightarrow> same_registry s s' \<Longrightarrow>
   (\<And>t x'. tasks s' t = Some x' \<Longrightarrow> \<exists>x. tasks s t = Some x \<and> is_cancelled (obj x') = is_cancelled (obj x)) \<Longrightarrow> registry_ok s'"
  unfolding registry_ok_def same_registry_def by metis

fun registry_event :: "sched_event \<Rightarrow> bool" where
  "registry_event (ESpawn t) = True" | "registry_event (ERegister t) = True" | "registry_event (ECancel t) = True"
| "registry_event (ETaskSpawn i t) = True" | "registry_event (ETaskRegister i t) = True"
| "registry_event (ETaskCancel i t) = True" | "registry_event _ = False"

lemma act_same_registry: "sched_act s e s' \<Longrightarrow> sched_inv s \<Longrightarrow> \<not> registry_event e \<Longrightarrow> same_registry s s'"
proof (induction rule: sched_act.induct)
  case (act_fetch s i t s')
  then have "taken t s s'" by (auto intro: taken_local)
  then show ?case using taken_registry registry_frame(3) registry_trans by blast
next
  case (act_steal s i lk draws t s')
  then have "taken t s s'" by (intro taken_fast) (auto simp: sched_inv_def)
  then show ?case using taken_registry registry_frame(3) registry_trans by blast
qed (use registry_frame in \<open>auto simp: same_registry_def complete_fiber_def yield_task_def\<close>)

lemma act_registry: "sched_act s e s' \<Longrightarrow> sched_inv s \<Longrightarrow> registry_ok s \<Longrightarrow> registry_ok s'"
proof -
  assume a: "sched_act s e s'" and inv: "sched_inv s" and r: "registry_ok s"
  have code: "registry_ok (set_code t k s1)" if "registry_ok s1" for t k s1
    by (rule registry_cong [OF that]) (auto simp: set_code_def sched_simps registry_frame split: if_splits)
  have pcs: "registry_ok (set_pc i p s1)"
    if "registry_ok s1" "i < length (workers s1)" "held p = held (pc (workers s1 ! i))" for i p s1
    by (rule registry_cong [OF that(1)]) (use that in \<open>auto simp: live_set_pc_same sched_simps registry_frame\<close>)
  from a show "registry_ok s'"
  proof (cases rule: sched_act.cases)
    case (act_spawn raw now data f t)
    then show ?thesis using registry_spawn inv r by blast
  next
    case (act_task_spawn i t x f k raw now data u s1)
    then have "registry_ok (set_code t k s1)" using registry_spawn inv r code by blast
    with act_task_spawn show ?thesis by (auto intro!: pcs simp: sched_simps dest: spawn_tasks)
  next
    case (act_task_register i t u)
    then show ?thesis using registry_register [OF r] by (auto intro!: pcs simp: sched_simps)
  next
    case (act_task_cancel i t x u k)
    then show ?thesis using cancel_registry [OF r] code by simp
  next
    case (act_cancel t)
    then show ?thesis using cancel_registry [OF r] by simp
  next
    case (act_register t)
    then show ?thesis using registry_register [OF r] by simp
  qed (rule registry_kept [OF a inv r act_same_registry [OF a inv]], simp)+
qed

interpretation registry_sys: invariant_system sched_step "\<lambda>s. sched_inv s \<and> registry_ok s"
  by unfold_locales (auto simp: sched_step_def intro: sched_act_inv act_registry)

lemma registry_start: "registry_ok (start (new_scheduler hw n))"
  by (simp add: registry_ok_def start_def new_scheduler_def Let_def setup_preemption_def)

section \<open>The watchdog beside the scheduler\<close>

text \<open>
  The two flags that the task and its watchdog share, the clock since the watchdog started (in
  milliseconds), where the watchdog is, the moments of the cancellations that it requested, the
  scheduler, which goes on running beside it, and what both print.
\<close>

datatype watch_pc = AtLoopTest | AtCheck | Stopped

record watchdog =
  completed :: bool
  timed_out :: bool
  elapsed :: nat
  wpc :: watch_pc
  cancels :: "nat list"
  wsched :: sched
  wout :: "string list"

definition new_watchdog :: "sched \<Rightarrow> watchdog" where
  "new_watchdog s = \<lparr> completed = False, timed_out = False, elapsed = 0, wpc = AtLoopTest, cancels = [],
                     wsched = s, wout = [] \<rparr>"

datatype watch_event =
    TaskDone "string option"  \<comment> \<open>\<open>func\<close> returned, or threw with this message\<close>
  | LoopTest                  \<comment> \<open>the watchdog's loop condition\<close>
  | Tick nat                  \<comment> \<open>time passes\<close>
  | Check                     \<comment> \<open>after its sleep the watchdog looks at the clock\<close>
  | Sched sched_event         \<comment> \<open>any step of the scheduler\<close>

definition task_done :: "string option \<Rightarrow> watchdog \<Rightarrow> watchdog" where
  "task_done exn w =
     (case exn of
        None \<Rightarrow> w\<lparr>completed := True\<rparr>
      | Some e \<Rightarrow> (if timed_out w then w else w\<lparr>wout := wout w @ [''[Task] Exception: '' @ e]\<rparr>)\<lparr>completed := True\<rparr>)"

definition loop_test :: "watchdog \<Rightarrow> watchdog" where
  "loop_test w = (if completed w then w\<lparr>wpc := Stopped\<rparr> else w\<lparr>wpc := AtCheck\<rparr>)"

definition check_clock :: "int \<Rightarrow> tid \<Rightarrow> watchdog \<Rightarrow> watchdog" where
  "check_clock timeout main_task w =
     (if timeout < int (elapsed w)
      then w\<lparr>timed_out := True, cancels := cancels w @ [elapsed w],
             wsched := cancel_task main_task (wsched w),
             wout := wout w @ [timeout_line main_task timeout],
             wpc := Stopped\<rparr>
      else w\<lparr>wpc := AtLoopTest\<rparr>)"

inductive watch_step :: "int \<Rightarrow> tid \<Rightarrow> watchdog \<Rightarrow> watch_event \<Rightarrow> watchdog \<Rightarrow> bool"
  for timeout :: int and main_task :: tid where
  w_done: "\<not> completed w \<Longrightarrow> watch_step timeout main_task w (TaskDone exn) (task_done exn w)"
| w_test: "wpc w = AtLoopTest \<Longrightarrow> watch_step timeout main_task w LoopTest (loop_test w)"
| w_tick: "watch_step timeout main_task w (Tick d) (w\<lparr>elapsed := elapsed w + d\<rparr>)"
| w_check: "wpc w = AtCheck \<Longrightarrow> watch_step timeout main_task w Check (check_clock timeout main_task w)"
| w_sched: "sched_step (wsched w) e s' \<Longrightarrow> watch_step timeout main_task w (Sched e) (w\<lparr>wsched := s'\<rparr>)"

lemmas watch_defs = task_done_def loop_test_def check_clock_def

text \<open>The watchdog's own part: at most one request, only after the timeout.\<close>

definition dog_ok :: "int \<Rightarrow> watchdog \<Rightarrow> bool" where
  "dog_ok timeout w \<longleftrightarrow>
     (timed_out w \<longleftrightarrow> cancels w \<noteq> []) \<and> length (cancels w) \<le> 1
     \<and> (cancels w \<noteq> [] \<longrightarrow> wpc w = Stopped \<and> timeout < int (hd (cancels w)) \<and> hd (cancels w) \<le> elapsed w)
     \<and> (wpc w = Stopped \<longrightarrow> completed w \<or> timed_out w)"

text \<open>The task is registered, and after the time-out it is gone or flagged.\<close>

definition reached :: "tid \<Rightarrow> sched \<Rightarrow> bool" where
  "reached t s \<longleftrightarrow> (t \<in># live s \<longrightarrow> (\<exists>x. tasks s t = Some x \<and> is_cancelled (obj x)))"

definition spawned :: "tid \<Rightarrow> sched \<Rightarrow> bool" where
  "spawned t s \<longleftrightarrow> sched_inv s \<and> registry_ok s \<and> t < next_task_id s \<and> t \<notin> set (registering s)"

definition watch_inv :: "int \<Rightarrow> tid \<Rightarrow> watchdog \<Rightarrow> bool" where
  "watch_inv timeout t w \<longleftrightarrow> dog_ok timeout w \<and> spawned t (wsched w) \<and> (timed_out w \<longrightarrow> reached t (wsched w))"

lemma cancel_reaches: "spawned t s \<Longrightarrow> reached t (cancel_task t s)"
proof -
  assume s: "spawned t s"
  have "is_cancelled (obj x')" if l: "t \<in># live s" and x': "tasks (cancel_task t s) t = Some x'" for x'
    using cancel_registry [of s t] s that by (simp add: spawned_def registry_ok_def live_frames cancel_fields)
  moreover have "\<exists>x'. tasks (cancel_task t s) t = Some x'" if "t \<in># live s"
    using live_task [of s t] that s cancel_tasks_dom [of t s t] by (auto simp: spawned_def)
  ultimately show ?thesis by (auto simp: reached_def live_frames)
qed

lemma spawn_grows:
  "spawn_enqueue raw now data f s = (t, s') \<Longrightarrow>
   registering s' = next_task_id s # registering s \<and> next_task_id s' = Suc (next_task_id s)"
  by (auto simp: spawn_enqueue_def schedule_task_def Let_def)

lemma registering_grows:
  assumes "sched_act s e s'" "sched_inv s"
  shows "set (registering s') \<subseteq> insert (next_task_id s) (set (registering s)) \<and> next_task_id s \<le> next_task_id s'"
proof (cases "registry_event e")
  case True
  with assms(1) show ?thesis
    by (cases rule: sched_act.cases)
       (auto simp: cancel_fields spawn_register_def set_pc_def upd_worker_def set_code_def upd_task_def
         dest: notin_set_remove1 dest!: spawn_grows split: if_splits)
next
  case False
  with act_same_registry [OF assms] show ?thesis by (auto simp: same_registry_def)
qed

lemma spawned_step: "sched_act s e s' \<Longrightarrow> spawned t s \<Longrightarrow> spawned t s'"
  using registering_grows [of s e s'] sched_act_inv [of s e s'] act_registry [of s e s'] by (auto simp: spawned_def)

lemma reached_step:
  assumes a: "sched_act s e s'" and s: "spawned t s" and r: "reached t s"
  shows "reached t s'"
  unfolding reached_def
proof
  assume "t \<in># live s'"
  with act_live [OF a, of t] s have "t \<in># live s" by (auto simp: spawned_def)
  with r obtain x where "tasks s t = Some x" "is_cancelled (obj x)" by (auto simp: reached_def)
  with act_still [OF a, of t] s show "\<exists>x. tasks s' t = Some x \<and> is_cancelled (obj x)"
    by (auto simp: spawned_def still_cancelled_def)
qed

lemma cancel_spawned: "spawned t s \<Longrightarrow> spawned t (cancel_task u s)"
  by (simp add: spawned_def cancel_task_inv cancel_registry cancel_fields)

lemma watch_inv_step:
  assumes "watch_inv timeout t w" "watch_step timeout t w e w'"
  shows "watch_inv timeout t w'"
  using assms(2)
proof (cases rule: watch_step.cases)
  case (w_sched ev s')
  with assms(1) show ?thesis
    by (auto simp: watch_inv_def dog_ok_def sched_step_def intro: spawned_step reached_step)
qed (use assms(1) in \<open>auto simp: watch_inv_def dog_ok_def watch_defs cancel_spawned cancel_reaches split: option.splits\<close>)

interpretation watch_sys: invariant_system "watch_step timeout t" "watch_inv timeout t" for timeout t
  by unfold_locales (rule watch_inv_step)

text \<open>
  C15. The time-out is enforced. With the scheduler running beside the watchdog in any interleaving, the
  watchdog requests at most one cancellation, only after more than the timeout has passed, and stops
  only when the task has completed or the cancellation was requested; and once it was requested, the
  task, wherever it was queued or running, has left the scheduler or carries the cancellation flag for
  good, so that its next \<open>yield\<close> throws. The scheduler stays consistent.
\<close>
theorem timeout_enforced:
  assumes "run sched_step (start (new_scheduler hw n)) es0 s0" "t < next_task_id s0" "t \<notin> set (registering s0)"
    and "run (watch_step timeout t) (new_watchdog s0) es w"
  shows "length (cancels w) \<le> 1 \<and> (timed_out w \<longleftrightarrow> cancels w \<noteq> [])
    \<and> (cancels w \<noteq> [] \<longrightarrow> timeout < int (hd (cancels w)) \<and> hd (cancels w) \<le> elapsed w)
    \<and> (wpc w = Stopped \<longrightarrow> completed w \<or> timed_out w) \<and> sched_inv (wsched w)
    \<and> (timed_out w \<longrightarrow> t \<in># live (wsched w) \<longrightarrow>
         (\<exists>x. tasks (wsched w) t = Some x \<and> is_cancelled (obj x) \<and> yield_before now (obj x) = Inl ''Task cancelled''))"
proof -
  have "sched_inv s0 \<and> registry_ok s0"
    using registry_sys.inv_run [OF assms(1)] sched_inv_start registry_start by blast
  with assms(2,3) have "watch_inv timeout t (new_watchdog s0)"
    by (simp add: watch_inv_def dog_ok_def spawned_def new_watchdog_def)
  from watch_sys.inv_run [OF assms(4) this] show ?thesis
    by (auto simp: watch_inv_def dog_ok_def spawned_def reached_def yield_before_def is_cancelled_def)
qed

lemma timed_start:
  "map_option (\<lambda>s. (next_task_id s, registering s, map (\<lambda>x. cancelled (obj x)) (map (the \<circ> tasks s) (global_queue s))))
     (exec_all [CSpawn (YieldTo Done Done Done), CRegister 1] (start (new_scheduler 0 1))) = Some (2, [], [False])"
  by code_simp

theorem timeout_enforced_witness:
  "\<exists>s w. run (watch_step 5 1) (new_watchdog s) [LoopTest, Tick 6, Check] w \<and> cancels w = [6] \<and> 1 \<in># live (wsched w)
     \<and> (\<exists>x. tasks (wsched w) 1 = Some x \<and> yield_before 0 (obj x) = Inl ''Task cancelled'')"
proof -
  from exec_all_reaches [OF timed_start] obtain es s where s: "run sched_step (start (new_scheduler 0 1)) es s"
    "next_task_id s = 2" "registering s = []" "length (global_queue s) = 1" by auto
  have inv: "sched_inv s" by (rule sched_sys.inv_run [OF s(1) sched_inv_start])
  obtain u where u: "global_queue s = [u]" using s(4) by (auto simp: length_Suc_conv)
  have "set_mset (live s) \<subseteq> {1..<next_task_id s}" using inv unfolding sched_inv_def by blast
  moreover have ul: "u \<in># live s" using u by (simp add: live_def)
  ultimately have "u = 1" using s(2) by auto
  let ?w0 = "new_watchdog s" let ?w1 = "loop_test ?w0"
  let ?w2 = "?w1\<lparr>elapsed := elapsed ?w1 + 6\<rparr>" let ?w3 = "check_clock 5 1 ?w2"
  have s1: "watch_step 5 1 ?w0 LoopTest ?w1" by (rule w_test) (simp add: new_watchdog_def)
  have s2: "watch_step 5 1 ?w1 (Tick 6) ?w2" by (rule w_tick)
  have s3: "watch_step 5 1 ?w2 Check ?w3" by (rule w_check) (simp add: loop_test_def new_watchdog_def)
  have r: "run (watch_step 5 1) ?w0 [LoopTest, Tick 6, Check] ?w3"
    by (rule run_Cons, rule s1, rule run_Cons, rule s2, rule run_Cons, rule s3, rule run_Nil)
  have w: "cancels ?w3 = [6]" "timed_out ?w3" "1 \<in># live (wsched ?w3)"
    using ul \<open>u = 1\<close> by (simp_all add: check_clock_def loop_test_def new_watchdog_def live_frames)
  with timeout_enforced [OF s(1) _ _ r, where now = 0] s(2,3) have
    "\<exists>x. tasks (wsched ?w3) 1 = Some x \<and> yield_before 0 (obj x) = Inl ''Task cancelled''" by auto
  then show ?thesis by (intro exI [of _ s] exI [of _ ?w3] conjI r w(1,3))
qed

end
