(* ===== verification/TaskPool.thy ===== *)
theory TaskPool
  imports Timeout
begin

text \<open>
  What \<open>TaskScheduler\<close> of \<open>src/concurrency/task.cc\<close> promises, without workers, queues, stealing,
  contexts and timers: a pool of tasks in which every task is issued once under a fresh id, stays
  until it has ended, never comes back, and is cancelled only on request. The scheduler with its
  threads is shown to be a refinement.
\<close>

section \<open>The specification\<close>

text \<open>
  \<open>issued\<close> is the next id, \<open>pending\<close> are the tasks whose \<open>spawn\<close> has not returned, \<open>alive\<close> those that
  have not ended, \<open>doomed\<close> those that are cancelled.
\<close>

record pool =
  issued :: tid
  pending :: "tid set"
  alive :: "tid set"
  doomed :: "tid set"

definition pool_init :: pool where
  "pool_init = \<lparr> issued = 1, pending = {}, alive = {}, doomed = {} \<rparr>"

fun register_of :: "sched_event \<Rightarrow> tid option" where
  "register_of (ERegister t) = Some t" | "register_of (ETaskRegister i t) = Some t" | "register_of _ = None"

fun cancel_of :: "sched_event \<Rightarrow> tid option" where
  "cancel_of (ECancel t) = Some t" | "cancel_of (ETaskCancel i t) = Some t" | "cancel_of _ = None"

definition silent :: "sched_event \<Rightarrow> bool" where
  "silent e \<longleftrightarrow> spawn_of e = None \<and> register_of e = None \<and> cancel_of e = None \<and> after_of e = None"

text \<open>
  A request dooms the task if it is alive and its \<open>spawn\<close> has returned; in the other cases it may
  be lost. When a worker is back from a task, the task goes on or is over.
\<close>

inductive pool_step :: "pool \<Rightarrow> sched_event \<Rightarrow> pool \<Rightarrow> bool" where
  p_spawn: "spawn_of e = Some (issued p) \<Longrightarrow>
     pool_step p e (p\<lparr>issued := Suc (issued p), pending := insert (issued p) (pending p), alive := insert (issued p) (alive p)\<rparr>)"
| p_register: "register_of e = Some t \<Longrightarrow> pool_step p e (p\<lparr>pending := pending p - {t}\<rparr>)"
| p_doom: "cancel_of e = Some t \<Longrightarrow> t < issued p \<Longrightarrow> pool_step p e (p\<lparr>doomed := insert t (doomed p)\<rparr>)"
| p_lost: "cancel_of e = Some t \<Longrightarrow> t \<in> alive p \<longrightarrow> t \<in> pending p \<or> t \<in> doomed p \<Longrightarrow> pool_step p e p"
| p_goes_on: "after_of e = Some t \<Longrightarrow> t \<in> alive p \<Longrightarrow> pool_step p e p"
| p_over: "after_of e = Some t \<Longrightarrow> t \<in> alive p \<Longrightarrow> pool_step p e (p\<lparr>alive := alive p - {t}\<rparr>)"
| p_silent: "silent e \<Longrightarrow> pool_step p e p"

text \<open>What the specification gives: no task returns, and only a request dooms.\<close>

lemma pool_step_history:
  "pool_step p e p' \<Longrightarrow> issued p \<le> issued p' \<and> alive p' \<subseteq> alive p \<union> {issued p..<issued p'}
     \<and> doomed p' \<subseteq> doomed p \<union> {t. cancel_of e = Some t} \<and> doomed p \<subseteq> doomed p'"
  by (induction rule: pool_step.induct) auto

lemma pool_run_history:
  "run pool_step p es p' \<Longrightarrow> issued p \<le> issued p' \<and> alive p' \<subseteq> alive p \<union> {issued p..<issued p'}
     \<and> doomed p' \<subseteq> doomed p \<union> {t. \<exists>e \<in> set es. cancel_of e = Some t} \<and> doomed p \<subseteq> doomed p'"
proof (induction rule: run.induct)
  case (run_Cons p e q es r)
  have "{issued p..<issued q} \<union> {issued q..<issued r} = {issued p..<issued r}"
    using run_Cons pool_step_history [of p e q] by (simp add: ivl_disj_un_two(3))
  with run_Cons pool_step_history [of p e q] show ?case by (auto 0 3)
qed simp

section \<open>How a step changes a task\<close>

definition cancelled_task :: "sched \<Rightarrow> tid \<Rightarrow> bool" where
  "cancelled_task s t \<longleftrightarrow> (\<exists>x. tasks s t = Some x \<and> is_cancelled (obj x))"

text \<open>
  Only a request (\<open>c\<close>) sets the flag, nothing clears it, and the state \<open>CANCELLED\<close> comes with it.
\<close>

definition moved :: "bool \<Rightarrow> fiber_task \<Rightarrow> fiber_task \<Rightarrow> bool" where
  "moved c x x' \<longleftrightarrow> (is_cancelled (obj x) \<longrightarrow> is_cancelled (obj x')) \<and> (is_cancelled (obj x') \<longrightarrow> is_cancelled (obj x) \<or> c)
     \<and> (state (obj x') = CANCELLED \<longrightarrow> state (obj x) = CANCELLED \<or> is_cancelled (obj x'))"

text \<open>Where a task of the new heap comes from: a task of the old one, or a fresh one.\<close>

fun came_from :: "bool \<Rightarrow> fiber_task option \<Rightarrow> fiber_task \<Rightarrow> bool" where
  "came_from c (Some x) x' = moved c x x'"
| "came_from c None x' = (\<not> is_cancelled (obj x') \<and> state (obj x') \<noteq> CANCELLED)"

definition heap_moved :: "tid option \<Rightarrow> sched \<Rightarrow> sched \<Rightarrow> bool" where
  "heap_moved target s s' \<longleftrightarrow> (\<forall>t x'. tasks s' t = Some x' \<longrightarrow> came_from (target = Some t) (tasks s t) x')"

lemma moved_trans: "moved c x x1 \<Longrightarrow> moved c x1 x2 \<Longrightarrow> moved c x x2"
  by (auto simp: moved_def)

lemma moved_changes:
  "moved c x x" "moved c x (x\<lparr>code := k\<rparr>)" "moved c x (x\<lparr>obj := set_state COMPLETED (obj x)\<rparr>)"
  "moved c x (x\<lparr>obj := yield_commit now (obj x)\<rparr>)" "moved True x (cancel_obj x)"
  "enter_fiber i x = (b, x') \<Longrightarrow> moved c x x'"
  by (auto simp: moved_def is_cancelled_def set_state_def yield_commit_def cancel_obj_def cancel_def
      enter_fiber_def yield_after_def Let_def split: if_splits fiber.splits)

lemma came_from_code: "came_from c y x \<Longrightarrow> came_from c y (x\<lparr>code := k\<rparr>)"
  by (cases y) (auto intro: moved_trans [OF _ moved_changes(2)])

lemma heap_same: "tasks s' = tasks s \<Longrightarrow> heap_moved target s s'"
  by (simp add: heap_moved_def moved_changes)

lemma heap_upd:
  "(\<And>x. moved (target = Some t) x (g x)) \<Longrightarrow> tasks s' = tasks (upd_task t g s) \<Longrightarrow> heap_moved target s s'"
  by (auto simp: heap_moved_def sched_simps moved_changes)

lemma heap_set_code: "heap_moved target s s1 \<Longrightarrow> heap_moved target s (set_code u k s1)"
  by (auto simp: heap_moved_def set_code_def sched_simps came_from_code)

lemma heap_cancel: "heap_moved (Some t) s (cancel_task t s)"
proof (cases "t \<in> active_task_map s \<and> task_alive s t")
  case True
  then show ?thesis
    by (intro heap_upd [of "Some t" t cancel_obj]) (simp_all add: cancel_task_def Let_def moved_changes)
qed (auto simp: cancel_task_def Let_def intro!: heap_same)

lemma heap_spawn:
  assumes "sched_inv s" "spawn_enqueue raw now data f s = (u, s')"
  shows "heap_moved target s s'"
  unfolding heap_moved_def
proof (intro allI impI)
  fix t x' assume "tasks s' t = Some x'"
  with spawn_tasks [OF assms(2)] sched_inv_fresh [OF assms(1)]
  show "came_from (target = Some t) (tasks s t) x'"
    by (cases "t = u") (auto simp: moved_changes new_task_def initialize_stack_def is_cancelled_def)
qed

lemma heap_begin: "heap_moved target s (begin_task i u now s)"
  by (auto simp: begin_task_def Let_def sched_simps track_current_def heap_moved_def
      split: option.splits prod.splits if_splits intro: moved_changes)

lemma act_moved: "sched_act s e s' \<Longrightarrow> sched_inv s \<Longrightarrow> heap_moved (cancel_of e) s s'"
proof (induction rule: sched_act.induct)
  case (act_fetch s i u s')
  then have "taken u s s'" by (auto intro: taken_local)
  then show ?case by (auto intro!: heap_same simp: sched_simps dest: taken_frame)
next
  case (act_steal s i lk draws u s')
  then have "taken u s s'" by (intro taken_fast) (auto simp: sched_inv_def)
  then show ?case by (auto intro!: heap_same simp: sched_simps dest: taken_frame)
next
  case (act_task_spawn s i u x f k raw now data v s')
  then have "heap_moved None s (set_code u k s')" by (blast intro: heap_set_code heap_spawn)
  then show ?case by (simp add: heap_moved_def sched_simps)
next
  case (act_task_cancel s i u x v k)
  show ?case by (simp add: heap_set_code heap_cancel)
next
  case (act_print s i u x m k)
  show ?case by (intro heap_set_code heap_same) simp
next
  case (act_yield_throw s i u x k c d now e)
  show ?case by (intro heap_set_code heap_same) simp
next
  case (act_spawn raw now data f s u s')
  then show ?case by (intro heap_spawn)
next
  case (act_begin s i u now)
  show ?case by (rule heap_begin)
next
  case (act_cancel s u)
  show ?case by (simp add: heap_cancel)
next
  case (act_finish s i u x)
  show ?case by (rule heap_upd [of _ u "\<lambda>x. x\<lparr>obj := set_state COMPLETED (obj x)\<rparr>"])
      (simp_all add: complete_fiber_def sched_simps moved_changes)
next
  case (act_throw s i u x m)
  show ?case by (rule heap_upd [of _ u "\<lambda>x. x\<lparr>obj := set_state COMPLETED (obj x)\<rparr>"])
      (simp_all add: complete_fiber_def sched_simps moved_changes)
next
  case (act_yield s i u now)
  show ?case by (rule heap_upd [of _ u "\<lambda>x. x\<lparr>obj := yield_commit now (obj x)\<rparr>"])
      (simp_all add: yield_task_def sched_simps moved_changes)
qed (auto intro!: heap_same simp: sched_simps)

section \<open>Refinement\<close>

definition pool_of :: "sched \<Rightarrow> pool" where
  "pool_of s = \<lparr> issued = next_task_id s, pending = set (registering s), alive = set_mset (live s),
                 doomed = {t. cancelled_task s t} \<rparr>"

definition pool_inv :: "sched \<Rightarrow> bool" where
  "pool_inv s \<longleftrightarrow> sched_inv s \<and> registry_ok s \<and> distinct (registering s)
     \<and> (\<forall>t \<in> set (registering s). t < next_task_id s)
     \<and> (\<forall>t x. tasks s t = Some x \<longrightarrow> state (obj x) = CANCELLED \<longrightarrow> is_cancelled (obj x))"

lemma pool_inv_start: "pool_inv (start (new_scheduler hw n))"
  using sched_inv_start [of hw n] registry_start [of hw n]
  by (simp add: pool_inv_def) (simp add: start_def new_scheduler_def Let_def setup_preemption_def)

lemma pool_of_start: "pool_of (start (new_scheduler hw n)) = pool_init"
  by (simp add: pool_of_def pool_init_def cancelled_task_def start_def new_scheduler_def Let_def setup_preemption_def
      live_def new_worker_def wtasks_def sum_list_replicate_empty)

text \<open>The flags after a step.\<close>

lemma cancelled_step:
  assumes "sched_act s e s'" "sched_inv s"
  shows "cancelled_task s t \<Longrightarrow> cancelled_task s' t" "cancelled_task s' t \<Longrightarrow> cancelled_task s t \<or> cancel_of e = Some t"
proof -
  show "cancelled_task s t \<Longrightarrow> cancelled_task s' t"
    using act_still [OF assms, of t] by (auto simp: cancelled_task_def still_cancelled_def)
  assume "cancelled_task s' t"
  then obtain x' where x': "tasks s' t = Some x'" "is_cancelled (obj x')" by (auto simp: cancelled_task_def)
  with act_moved [OF assms] have "came_from (cancel_of e = Some t) (tasks s t) x'" by (simp add: heap_moved_def)
  with x'(2) show "cancelled_task s t \<or> cancel_of e = Some t"
    by (cases "tasks s t") (auto simp: cancelled_task_def moved_def)
qed

lemma state_flag_step:
  assumes "sched_act s e s'" "sched_inv s" "tasks s' t = Some x'" "state (obj x') = CANCELLED"
    and "\<forall>t x. tasks s t = Some x \<longrightarrow> state (obj x) = CANCELLED \<longrightarrow> is_cancelled (obj x)"
  shows "is_cancelled (obj x')"
proof -
  have "came_from (cancel_of e = Some t) (tasks s t) x'"
    using act_moved [OF assms(1,2)] assms(3) by (simp add: heap_moved_def)
  with assms(4,5) show ?thesis by (cases "tasks s t") (auto simp: moved_def)
qed

text \<open>The tasks whose \<open>spawn\<close> is not finished.\<close>

lemma registering_step:
  assumes "sched_act s e s'" "sched_inv s"
  shows "registering s' = (case spawn_of e of Some t \<Rightarrow> t # registering s
      | None \<Rightarrow> (case register_of e of Some t \<Rightarrow> remove1 t (registering s) | None \<Rightarrow> registering s))
    \<and> next_task_id s' = (case spawn_of e of Some t \<Rightarrow> Suc t | None \<Rightarrow> next_task_id s)"
proof (cases "registry_event e")
  case True
  with assms(1) show ?thesis
    by (cases rule: sched_act.cases)
       (auto simp: cancel_fields spawn_register_def set_pc_def upd_worker_def set_code_def upd_task_def
         dest: spawn_registry)
next
  case False
  then have "spawn_of e = None" "register_of e = None" by (cases e; simp)+
  with False act_same_registry [OF assms] show ?thesis by (simp add: same_registry_def)
qed

lemma pool_inv_step: "sched_act s e s' \<Longrightarrow> pool_inv s \<Longrightarrow> pool_inv s'"
proof -
  assume a: "sched_act s e s'" and i: "pool_inv s"
  then have inv: "sched_inv s" by (simp add: pool_inv_def)
  have "distinct (registering s') \<and> (\<forall>t \<in> set (registering s'). t < next_task_id s')"
    using registering_step [OF a inv] act_live_spawn [OF a] i
    by (auto simp: pool_inv_def less_Suc_eq split: option.splits dest: notin_set_remove1)
  moreover have "sched_inv s' \<and> registry_ok s'"
    using i by (simp add: pool_inv_def sched_act_inv [OF a] act_registry [OF a])
  ultimately show ?thesis using i state_flag_step [OF a inv] by (auto simp: pool_inv_def)
qed

text \<open>A request that finds its task alive and registered leaves it flagged.\<close>

lemma cancel_event_reaches:
  assumes "sched_act s e s'" "pool_inv s" "cancel_of e = Some t" "t \<in># live s" "t \<notin> set (registering s)"
  shows "cancelled_task s' t"
proof -
  have "t < next_task_id s" using assms(2,4) by (force simp: pool_inv_def sched_inv_def)
  then have "spawned t s" using assms(2,5) by (simp add: spawned_def pool_inv_def)
  then have c: "cancelled_task (cancel_task t s) t"
    using cancel_reaches [of t s] assms(4) by (simp add: reached_def live_frames cancelled_task_def)
  from assms(1,3) show ?thesis
  proof (cases rule: sched_act.cases)
    case (act_task_cancel i u x v k)
    with c assms(3) show ?thesis by (auto simp: cancelled_task_def set_code_def sched_simps)
  qed (use c in simp_all)
qed

lemma at_most_one_remove: "count M t \<le> 1 \<Longrightarrow> set_mset (M - {#t#}) = set_mset M - {t}"
proof -
  assume "count M t \<le> 1"
  then have "u \<in># M - {#t#} \<longleftrightarrow> u \<in># M \<and> u \<noteq> t" for u
    by (cases "u = t") (auto simp: not_in_iff in_diff_count)
  then show ?thesis by auto
qed

lemma flags_same:
  assumes "sched_act s e s'" "sched_inv s" "cancel_of e = None"
  shows "cancelled_task s' = cancelled_task s"
proof
  fix t
  show "cancelled_task s' t = cancelled_task s t"
    using cancelled_step [OF assms(1,2), of t] assms(3) by auto
qed

lemma act_pool_cancel:
  assumes a: "sched_act s e s'" and i: "pool_inv s" and cancel: "cancel_of e = Some t"
  shows "pool_step (pool_of s) e (pool_of s')"
proof -
  from i have inv: "sched_inv s" by (simp add: pool_inv_def)
  have n: "spawn_of e = None" "register_of e = None" "after_of e = None" using cancel by (cases e; simp)+
  note flags = cancelled_step [OF a inv] and same = n registering_step [OF a inv] act_live_same [OF a inv]
  show ?thesis
  proof (cases "cancelled_task s t = cancelled_task s' t")
    case True
    with flags cancel have "{u. cancelled_task s' u} = {u. cancelled_task s u}" by auto
    with same have "pool_of s' = pool_of s" by (simp add: pool_of_def)
    moreover have "t \<in> alive (pool_of s) \<longrightarrow> t \<in> pending (pool_of s) \<or> t \<in> doomed (pool_of s)"
      using cancel_event_reaches [OF a i cancel] True by (auto simp: pool_of_def)
    ultimately show ?thesis using p_lost [OF cancel] by simp
  next
    case False
    then have t: "cancelled_task s' t" "\<not> cancelled_task s t" using flags by blast+
    then have "{u. cancelled_task s' u} = insert t {u. cancelled_task s u}" using flags cancel by auto
    with same have "pool_of s' = (pool_of s)\<lparr>doomed := insert t (doomed (pool_of s))\<rparr>" by (simp add: pool_of_def)
    moreover have "t < next_task_id s'"
      using t(1) sched_act_inv [OF a inv] by (auto simp: cancelled_task_def sched_inv_def dom_def set_eq_iff)
    ultimately show ?thesis using p_doom [OF cancel, of "pool_of s"] same by (simp add: pool_of_def)
  qed
qed

lemma act_pool:
  assumes a: "sched_act s e s'" and i: "pool_inv s"
  shows "pool_step (pool_of s) e (pool_of s')"
proof -
  from i have inv: "sched_inv s" by (simp add: pool_inv_def)
  note same = registering_step [OF a inv] act_live_same [OF a inv] flags_same [OF a inv]
  consider (spawn) t where "spawn_of e = Some t" | (register) t where "register_of e = Some t"
    | (cancel) t where "cancel_of e = Some t" | (after) t where "after_of e = Some t" | (silent) "silent e"
    unfolding silent_def by fastforce
  then show ?thesis
  proof cases
    case spawn
    then have "register_of e = None" "cancel_of e = None" by (cases e; simp)+
    with spawn same act_live_spawn [OF a spawn] p_spawn [of e "pool_of s"] show ?thesis by (auto simp: pool_of_def)
  next
    case register
    then have "spawn_of e = None" "cancel_of e = None" "after_of e = None" by (cases e; simp)+
    with register same p_register [of e t "pool_of s"] i show ?thesis by (simp add: pool_of_def pool_inv_def)
  next
    case cancel
    then show ?thesis by (rule act_pool_cancel [OF a i])
  next
    case after
    then have n: "spawn_of e = None" "register_of e = None" "cancel_of e = None" by (cases e; simp)+
    have rm: "set_mset (live s - {#t#}) = set_mset (live s) - {t}"
      using inv by (simp add: sched_inv_def at_most_one_remove)
    from act_live_after [OF a after] have "live s' = live s \<or> live s' = live s - {#t#}" by blast
    then have "pool_of s' = pool_of s \<or> pool_of s' = (pool_of s)\<lparr>alive := alive (pool_of s) - {t}\<rparr>"
      using n same(1) same(3) by (elim disjE) (simp_all add: pool_of_def rm)
    moreover have "t \<in> alive (pool_of s)" using act_live_after [OF a after] by (simp add: pool_of_def)
    ultimately show ?thesis using p_goes_on [OF after] p_over [OF after] by metis
  next
    case silent
    then have "pool_of s' = pool_of s" using same by (simp add: pool_of_def silent_def)
    with p_silent [OF silent] show ?thesis by simp
  qed
qed

interpretation sched_sim: simulation sched_step pool_inv pool_step pool_of
  by unfold_locales (auto simp: sched_step_def intro: pool_inv_step act_pool)


lemma cancelled_early:
  "map_option (\<lambda>s. (next_task_id s, map_option (\<lambda>x. state (obj x)) (tasks s 1), global_queue s,
       map local_queue (workers s), map (held \<circ> pc) (workers s)))
     (exec_all [CSpawn Done, CRegister 1, CCancel 1, CPoll 0, CSteal 0 [], CBegin 0, CAfter 0] (start (new_scheduler 0 1)))
   = Some (2, Some CANCELLED, [], [[]], [[]])"
  by code_simp


end
