(* ===== verification/FsPath.thy ===== *)
theory FsPath
  imports Prelude
begin

text \<open>
  The part of \<open>std::filesystem::path\<close> (POSIX) that Kode calls: decomposition into elements,
  \<open>operator/=\<close>, \<open>filename\<close>, \<open>parent_path\<close>, \<open>extension\<close>, \<open>generic_string\<close>, \<open>absolute\<close> and
  \<open>lexically_normal\<close>; then the path helpers of \<open>src/v8/v8_helpers.cc\<close> on top of it. A path is
  its native string. The current directory is the argument \<open>cwd\<close>.
\<close>

abbreviation slash :: char where "slash \<equiv> CHR ''/''"

section \<open>std::filesystem::path\<close>

definition is_absolute :: "string \<Rightarrow> bool" where
  "is_absolute p \<longleftrightarrow> p \<noteq> [] \<and> hd p = slash"

text \<open>
  The elements after the root directory: names separated by runs of slashes, and an empty last
  element when the path ends with a slash.
\<close>

function elems :: "string \<Rightarrow> string list" where
  "elems r =
     (if r = [] then []
      else (let f = takeWhile (\<lambda>c. c \<noteq> slash) r; rest = dropWhile (\<lambda>c. c \<noteq> slash) r in
        if rest = [] then [f]
        else (let rest' = dropWhile (\<lambda>c. c = slash) rest in
          if rest' = [] then [f, []] else f # elems rest')))"
  by pat_completeness auto
termination
proof (relation "measure length")
  fix r f rest rest' :: string
  assume r: "r \<noteq> []" "rest = dropWhile (\<lambda>c. c \<noteq> slash) r" "rest \<noteq> []"
    "rest' = dropWhile (\<lambda>c. c = slash) rest"
  from r(3) obtain c cs where c: "rest = c # cs" by (cases rest) auto
  have "hd rest = slash" using hd_dropWhile [of "\<lambda>c. c \<noteq> slash" r] r(3) unfolding r(2) by simp
  with c have "c = slash" by simp
  with c r(4) have "length rest' \<le> length cs" by (simp add: length_dropWhile_le)
  moreover have "length (c # cs) \<le> length r"
    unfolding c [symmetric] r(2) by (rule length_dropWhile_le)
  ultimately show "(rest', r) \<in> measure length" by simp
qed simp

declare elems.simps [simp del]

definition rel_elems :: "string \<Rightarrow> string list" where
  "rel_elems p = elems (dropWhile (\<lambda>c. c = slash) p)"

fun join_path :: "string list \<Rightarrow> string" where
  "join_path [] = []"
| "join_path [e] = e"
| "join_path (e # es) = e @ slash # join_path es"

definition root_dir :: "bool \<Rightarrow> string" where
  "root_dir ab = (if ab then [slash] else [])"

definition generic_string :: "string \<Rightarrow> string" where
  "generic_string p = root_dir (is_absolute p) @ join_path (rel_elems p)"

definition filename :: "string \<Rightarrow> string" where
  "filename p = (if rel_elems p = [] then [] else last (rel_elems p))"

definition parent_path :: "string \<Rightarrow> string" where
  "parent_path p =
     (if rel_elems p = [] then p
      else (let q = rev (dropWhile (\<lambda>c. c \<noteq> slash) (rev p));
                q' = rev (dropWhile (\<lambda>c. c = slash) (rev q))
            in if q = [] then [] else if q' = [] then [slash] else q'))"

text \<open>The last dot of the file name, unless it is the first character or the name is a dot name.\<close>

definition extension :: "string \<Rightarrow> string" where
  "extension p =
     (let f = filename p in
      if f = ''.'' \<or> f = ''..'' then []
      else (case str_rfind_char (CHR ''.'') f of
              None \<Rightarrow> [] | Some i \<Rightarrow> if i = 0 then [] else drop i f))"

definition path_append :: "string \<Rightarrow> string \<Rightarrow> string" where
  "path_append p q =
     (if is_absolute q then q else if filename p \<noteq> [] then p @ slash # q else p @ q)"

text \<open>\<open>lexically_normal\<close>: the names kept so far (innermost first) and whether a separator is pending.\<close>

definition norm_step :: "bool \<Rightarrow> string \<Rightarrow> string list \<times> bool \<Rightarrow> string list \<times> bool" where
  "norm_step ab e acc =
     (case acc of (st, tr) \<Rightarrow>
        if e = [] \<or> e = ''.'' then (st, True)
        else if e = ''..'' then
          (case st of
             [] \<Rightarrow> if ab then ([], True) else ([''..''], False)
           | x # xs \<Rightarrow> if x = ''..'' then (''..'' # st, False) else (xs, True))
        else (e # st, False))"

definition norm_elems :: "bool \<Rightarrow> string list \<Rightarrow> string list \<times> bool" where
  "norm_elems ab es = fold (norm_step ab) es ([], False)"

definition lexically_normal :: "string \<Rightarrow> string" where
  "lexically_normal p =
     (if p = [] then []
      else (case norm_elems (is_absolute p) (rel_elems p) of (st, tr) \<Rightarrow>
        if st = [] then (if is_absolute p then [slash] else ''.'')
        else root_dir (is_absolute p) @ join_path (rev st)
               @ (if tr \<and> hd st \<noteq> ''..'' then [slash] else [])))"

text \<open>\<open>std::filesystem::absolute\<close> throws on the empty path.\<close>

definition absolute :: "string \<Rightarrow> string \<Rightarrow> string option" where
  "absolute cwd p =
     (if p = [] then None else if is_absolute p then Some p else Some (path_append cwd p))"

section \<open>The helpers of v8\_helpers.cc\<close>

definition NormalizePath :: "string \<Rightarrow> string \<Rightarrow> string option" where
  "NormalizePath cwd p = map_option (\<lambda>a. generic_string (lexically_normal a)) (absolute cwd p)"

definition Dirname :: "string \<Rightarrow> string" where
  "Dirname p = generic_string (parent_path p)"

fun trim_end :: "string \<Rightarrow> nat \<Rightarrow> nat" where
  "trim_end s (Suc (Suc n)) = (if s ! Suc n = slash then trim_end s (Suc n) else Suc (Suc n))"
| "trim_end s n = n"

definition TrimTrailingSeparators :: "string \<Rightarrow> string" where
  "TrimTrailingSeparators p = take (trim_end p (length p)) p"

definition LexicalPath :: "string \<Rightarrow> string" where
  "LexicalPath p =
     (let normalized = TrimTrailingSeparators (generic_string (lexically_normal p))
      in if normalized = [] then ''.'' else normalized)"

definition PathDirname :: "string \<Rightarrow> string" where
  "PathDirname p =
     (let clean = TrimTrailingSeparators p in
      if clean = [slash] then clean
      else (let parent = generic_string (parent_path clean)
            in if parent = [] then ''.'' else parent))"

definition PathBasename :: "string \<Rightarrow> string" where
  "PathBasename p =
     (let clean = TrimTrailingSeparators p in
      if clean = [slash] then clean else generic_string (filename clean))"

section \<open>Elements and their strings\<close>

definition name :: "string \<Rightarrow> bool" where
  "name e \<longleftrightarrow> e \<noteq> [] \<and> slash \<notin> set e"

lemma elems_Nil [simp]: "elems [] = []"
  by (subst elems.simps) simp

lemma elems_name:
  assumes "name e"
  shows "elems e = [e]"
proof -
  from assms have "takeWhile (\<lambda>c. c \<noteq> slash) e = e" "dropWhile (\<lambda>c. c \<noteq> slash) e = []" "e \<noteq> []"
    by (auto simp: name_def takeWhile_eq_all_conv dropWhile_eq_Nil_conv)
  then show ?thesis by (subst elems.simps) (simp add: Let_def)
qed

lemma elems_nonempty: "r \<noteq> [] \<Longrightarrow> elems r \<noteq> []"
  by (subst elems.simps) (simp add: Let_def del: dropWhile_eq_Nil_conv)

lemma takeWhile_name: "name e \<Longrightarrow> takeWhile (\<lambda>c. c \<noteq> slash) (e @ slash # r) = e"
  by (subst takeWhile_append2) (auto simp: name_def)

lemma dropWhile_name: "name e \<Longrightarrow> dropWhile (\<lambda>c. c \<noteq> slash) (e @ slash # r) = slash # r"
  by (subst dropWhile_append2) (auto simp: name_def)

lemma elems_cons:
  assumes "name e"
  shows "elems (e @ slash # r) =
    e # (if dropWhile (\<lambda>c. c = slash) r = [] then [[]] else elems (dropWhile (\<lambda>c. c = slash) r))"
  using assms
  by (subst elems.simps) (simp add: takeWhile_name dropWhile_name Let_def)

text \<open>A list of elements as a path can have them: names, then possibly one empty element.\<close>

fun elem_list :: "string list \<Rightarrow> bool" where
  "elem_list [] = True"
| "elem_list [e] = name e"
| "elem_list (e # es) = (name e \<and> (es = [[]] \<or> elem_list es))"

lemma join_path_Cons: "es \<noteq> [] \<Longrightarrow> join_path (e # es) = e @ slash # join_path es"
  by (cases es) auto

lemma elem_list_Cons: "es \<noteq> [] \<Longrightarrow> elem_list (e # es) = (name e \<and> (es = [[]] \<or> elem_list es))"
  by (cases es) auto

lemma join_path_hd:
  "elem_list es \<Longrightarrow> es \<noteq> [] \<Longrightarrow> join_path es \<noteq> [] \<and> hd (join_path es) \<noteq> slash"
  by (cases es rule: elem_list.cases) (auto simp: name_def hd_append dest: hd_in_set)

lemma dropWhile_hd: "s \<noteq> [] \<Longrightarrow> \<not> P (hd s) \<Longrightarrow> dropWhile P s = s"
  by (cases s) auto

lemma elems_join: "elem_list es \<Longrightarrow> elems (join_path es) = es"
proof (induction es)
  case Nil
  then show ?case by simp
next
  case (Cons e es)
  show ?case
  proof (cases "es = []")
    case True
    with Cons.prems show ?thesis by (simp add: elems_name)
  next
    case False
    with Cons.prems have e: "name e" and es: "es = [[]] \<or> elem_list es" by (auto simp: elem_list_Cons)
    from es show ?thesis
    proof
      assume "es = [[]]"
      with e show ?thesis by (simp add: elems_cons)
    next
      assume "elem_list es"
      with False join_path_hd [of es] have "dropWhile (\<lambda>c. c = slash) (join_path es) = join_path es"
        "join_path es \<noteq> []" by (auto intro: dropWhile_hd)
      with e False Cons.IH [OF \<open>elem_list es\<close>] show ?thesis
        by (simp add: join_path_Cons elems_cons del: dropWhile_eq_Nil_conv)
    qed
  qed
qed

lemma elem_list_elems: "r = [] \<or> hd r \<noteq> slash \<Longrightarrow> elem_list (elems r)"
proof (induction r rule: elems.induct)
  case (1 r)
  show ?case
  proof (cases "r = []")
    case True
    then show ?thesis by simp
  next
    case False
    let ?f = "takeWhile (\<lambda>c. c \<noteq> slash) r" let ?rest = "dropWhile (\<lambda>c. c \<noteq> slash) r"
    let ?rest' = "dropWhile (\<lambda>c. c = slash) ?rest"
    have f: "name ?f"
      using False "1.prems" by (cases r) (auto simp: name_def dest: set_takeWhileD)
    have hd: "?rest' = [] \<or> hd ?rest' \<noteq> slash" using hd_dropWhile [of "\<lambda>c. c = slash" ?rest] by blast
    show ?thesis
    proof (cases "?rest = [] \<or> ?rest' = []")
      case True
      with \<open>r \<noteq> []\<close> f show ?thesis by (subst elems.simps) (auto simp: Let_def simp del: dropWhile_eq_Nil_conv)
    next
      case False
      with \<open>r \<noteq> []\<close> hd have "elem_list (elems ?rest')" by (intro "1.IH") (auto simp del: dropWhile_eq_Nil_conv)
      moreover have "elems ?rest' \<noteq> []" using False by (intro elems_nonempty) blast
      ultimately show ?thesis using f False \<open>r \<noteq> []\<close>
        by (subst elems.simps) (auto simp: Let_def elem_list_Cons simp del: dropWhile_eq_Nil_conv)
    qed
  qed
qed

lemma elem_list_rel: "elem_list (rel_elems p)"
  unfolding rel_elems_def
  using hd_dropWhile [of "\<lambda>c. c = slash" p] by (intro elem_list_elems) blast

lemma elem_list_names: "elem_list es \<Longrightarrow> e \<in> set es \<Longrightarrow> e = [] \<or> name e"
  by (induction es rule: elem_list.induct) auto

text \<open>A rooted or relative element list printed and read back.\<close>

definition print_path :: "bool \<Rightarrow> string list \<Rightarrow> string" where
  "print_path ab es = root_dir ab @ join_path es"

lemma print_path_rel: "elem_list es \<Longrightarrow> rel_elems (print_path ab es) = es"
  using join_path_hd [of es]
  by (cases "es = []") (auto simp: rel_elems_def print_path_def root_dir_def elems_join dropWhile_hd)

lemma print_path_absolute: "elem_list es \<Longrightarrow> is_absolute (print_path ab es) = ab"
  using join_path_hd [of es]
  by (cases "es = []") (auto simp: is_absolute_def print_path_def root_dir_def)

lemma generic_string_print: "elem_list es \<Longrightarrow> generic_string (print_path ab es) = print_path ab es"
  by (simp add: generic_string_def print_path_rel print_path_absolute) (simp add: print_path_def)

section \<open>Segments: the text between slashes\<close>

text \<open>
  The reference view of a path: whether it starts with a slash, and the non-empty texts between
  its slashes.
\<close>

fun split_slash :: "string \<Rightarrow> string list" where
  "split_slash [] = [[]]"
| "split_slash (c # s) =
     (if c = slash then [] # split_slash s
      else (c # hd (split_slash s)) # tl (split_slash s))"

definition segs :: "string \<Rightarrow> string list" where
  "segs p = filter (\<lambda>e. e \<noteq> []) (split_slash p)"

lemma split_slash_nonempty [simp]: "split_slash s \<noteq> []"
  by (induction s) auto

lemma split_slash_append: "split_slash (p @ slash # q) = split_slash p @ split_slash q"
  by (induction p) (auto simp: hd_append tl_append split: list.splits)

lemma split_slash_plain: "slash \<notin> set p \<Longrightarrow> split_slash p = [p]"
  by (induction p) auto

lemma segs_append [simp]: "segs (p @ slash # q) = segs p @ segs q"
  by (simp add: segs_def split_slash_append)

lemma segs_Nil [simp]: "segs [] = []"
  by (simp add: segs_def)

lemma segs_slash [simp]: "segs (slash # q) = segs q"
  using segs_append [of "[]" q] by simp

lemma segs_name: "name e \<Longrightarrow> segs e = [e]"
  by (simp add: segs_def name_def split_slash_plain)

lemma segs_snoc_slash [simp]: "segs (p @ [slash]) = segs p"
  using segs_append [of p "[]"] by simp

lemma segs_replicate [simp]: "segs (p @ replicate n slash) = segs p"
proof (induction n arbitrary: p)
  case (Suc n)
  from Suc [of "p @ [slash]"] show ?case by simp
qed simp

lemma split_slash_replicate: "last (split_slash (replicate n slash)) = []"
  by (induction n) auto

lemma segs_dropWhile [simp]: "segs (dropWhile (\<lambda>c. c = slash) p) = segs p"
  by (induction p) auto

lemma split_slash_dropWhile:
  "dropWhile (\<lambda>c. c = slash) p \<noteq> []
    \<Longrightarrow> last (split_slash (dropWhile (\<lambda>c. c = slash) p)) = last (split_slash p)"
  by (induction p) (auto split: if_splits)

lemma takeWhile_dropWhile_slash:
  assumes "dropWhile (\<lambda>c. c \<noteq> slash) r \<noteq> []"
  shows "\<exists>t. dropWhile (\<lambda>c. c \<noteq> slash) r = slash # t \<and> r = takeWhile (\<lambda>c. c \<noteq> slash) r @ slash # t"
proof -
  from assms obtain c t where ct: "dropWhile (\<lambda>c. c \<noteq> slash) r = c # t"
    by (cases "dropWhile (\<lambda>c. c \<noteq> slash) r") blast+
  with hd_dropWhile [OF assms] have "c = slash" by simp
  with ct takeWhile_dropWhile_id [of "\<lambda>c. c \<noteq> slash" r] show ?thesis by metis
qed

lemma slash_notin_takeWhile: "slash \<notin> set (takeWhile (\<lambda>c. c \<noteq> slash) r)"
  by (auto dest: set_takeWhileD)

text \<open>The elements of the standard library and the segments agree but for empty elements.\<close>

lemma only_slashes:
  assumes "dropWhile (\<lambda>c. c = slash) t = []"
  shows "segs t = []" "last (split_slash t) = []"
proof -
  have t: "t = replicate (length t) slash" using assms by (intro replicate_eqI) auto
  then show "segs t = []" using segs_replicate [of "[]" "length t"] by simp
  show "last (split_slash t) = []" using split_slash_replicate [of "length t"] t by simp
qed

lemma split_slash_first:
  assumes "dropWhile (\<lambda>c. c \<noteq> slash) r = slash # t" "r = takeWhile (\<lambda>c. c \<noteq> slash) r @ slash # t"
  shows "split_slash r = takeWhile (\<lambda>c. c \<noteq> slash) r # split_slash t"
proof -
  have "split_slash (takeWhile (\<lambda>c. c \<noteq> slash) r) = [takeWhile (\<lambda>c. c \<noteq> slash) r]"
    by (rule split_slash_plain) (rule slash_notin_takeWhile)
  then show ?thesis by (subst assms(2)) (simp add: split_slash_append)
qed

lemma elems_segs:
  "filter (\<lambda>e. e \<noteq> []) (elems r) = segs r \<and> (r \<noteq> [] \<longrightarrow> last (elems r) = last (split_slash r))"
proof (induction r rule: elems.induct)
  case (1 r)
  let ?f = "takeWhile (\<lambda>c. c \<noteq> slash) r" let ?rest = "dropWhile (\<lambda>c. c \<noteq> slash) r"
  let ?rest' = "dropWhile (\<lambda>c. c = slash) ?rest"
  consider "r = []" | "r \<noteq> []" "?rest = []" | "r \<noteq> []" "?rest \<noteq> []" "?rest' = []"
    | "r \<noteq> []" "?rest \<noteq> []" "?rest' \<noteq> []" by blast
  then show ?case
  proof cases
    case 2
    then have "elems r = [?f]" by (subst elems.simps) (simp only: Let_def if_True if_False simp_thms)
    moreover from 2 have "?f = r" using takeWhile_dropWhile_id [of "\<lambda>c. c \<noteq> slash" r] by simp
    moreover from this slash_notin_takeWhile [of r] have "split_slash r = [r]"
      by (intro split_slash_plain) auto
    ultimately show ?thesis by (simp add: segs_def)
  next
    case 3
    then have "elems r = [?f, []]" by (subst elems.simps) (simp only: Let_def if_True if_False simp_thms)
    moreover obtain t where t: "?rest = slash # t" "r = ?f @ slash # t"
      using takeWhile_dropWhile_slash [OF 3(2)] by blast
    moreover have "dropWhile (\<lambda>c. c = slash) t = []" using 3(3) unfolding t(1) by simp
    ultimately show ?thesis using split_slash_first [OF t] only_slashes [of t] by (simp add: segs_def)
  next
    case 4
    then have e: "elems r = ?f # elems ?rest'" by (subst elems.simps) (simp only: Let_def if_True if_False simp_thms)
    obtain t where t: "?rest = slash # t" "r = ?f @ slash # t"
      using takeWhile_dropWhile_slash [OF 4(2)] by blast
    have d: "?rest' = dropWhile (\<lambda>c. c = slash) t" by (simp add: t(1))
    from "1.IH" [OF 4(1) refl refl 4(2) refl 4(3)] 4(3)
    have "filter (\<lambda>e. e \<noteq> []) (elems ?rest') = segs t" "last (elems ?rest') = last (split_slash t)"
      using split_slash_dropWhile [of t] unfolding d by simp_all
    then show ?thesis using e split_slash_first [OF t] elems_nonempty [OF 4(3)] by (simp add: segs_def)
  qed simp
qed

lemma rel_elems_segs: "filter (\<lambda>e. e \<noteq> []) (rel_elems p) = segs p"
  by (simp add: rel_elems_def elems_segs)


lemma filename_segs: "filename p = (if dropWhile (\<lambda>c. c = slash) p = [] then [] else last (split_slash p))"
  using elems_segs [of "dropWhile (\<lambda>c. c = slash) p"] elems_nonempty [of "dropWhile (\<lambda>c. c = slash) p"]
    split_slash_dropWhile [of p]
  unfolding filename_def rel_elems_def by (auto simp del: dropWhile_eq_Nil_conv)

lemma last_split_slash: "last (split_slash p) = [] \<Longrightarrow> p = [] \<or> last p = slash"
  by (induction p) (auto split: if_splits, (metis last.simps list.collapse list.distinct(1) split_slash_nonempty)+)

lemma filename_Nil: "filename p = [] \<Longrightarrow> p = [] \<or> last p = slash"
proof (cases "dropWhile (\<lambda>c. c = slash) p = []")
  case True
  then show ?thesis by (cases p rule: rev_cases) auto
next
  case False
  then show "filename p = [] \<Longrightarrow> ?thesis" using last_split_slash [of p] by (simp only: filename_segs if_False)
qed

lemma segs_path_append: "\<not> is_absolute q \<Longrightarrow> segs (path_append p q) = segs p @ segs q"
proof (cases "filename p = []")
  case True
  moreover assume "\<not> is_absolute q"
  moreover from filename_Nil [OF True] have "p = [] \<or> (\<exists>p'. p = p' @ [slash])"
    by (metis append_butlast_last_id)
  ultimately show ?thesis by (auto simp: path_append_def)
qed (simp add: path_append_def)

lemma is_absolute_path_append:
  "is_absolute (path_append p q) \<longleftrightarrow> is_absolute q \<or> is_absolute p"
  by (cases p) (auto simp: path_append_def is_absolute_def filename_def rel_elems_def)

lemma join_path_segs: "elem_list es \<or> es = [[]] \<Longrightarrow> segs (join_path es) = filter (\<lambda>e. e \<noteq> []) es"
proof (induction es)
  case (Cons e es)
  then show ?case
    by (cases "es = []") (auto simp: elem_list_Cons join_path_Cons segs_name, auto simp: name_def)
qed simp

lemma generic_string_segs [simp]: "segs (generic_string p) = segs p"
  using join_path_segs [of "rel_elems p"] elem_list_rel [of p]
  by (simp add: generic_string_def root_dir_def rel_elems_segs)

lemma generic_string_absolute [simp]: "is_absolute (generic_string p) = is_absolute p"
  using print_path_absolute [OF elem_list_rel [of p], of "is_absolute p"]
  by (simp add: generic_string_def print_path_def)

section \<open>The normal form\<close>

text \<open>The reference normalisation: one pass over the segments with a stack, innermost first.\<close>

definition walk_step :: "bool \<Rightarrow> string \<Rightarrow> string list \<Rightarrow> string list" where
  "walk_step ab e st =
     (if e = ''.'' then st
      else if e = ''..'' then
        (if st = [] then (if ab then [] else [''..''])
         else if hd st = ''..'' then ''..'' # st else tl st)
      else e # st)"

definition walk :: "bool \<Rightarrow> string list \<Rightarrow> string list" where
  "walk ab es = fold (walk_step ab) es []"

definition show_path :: "bool \<Rightarrow> string list \<Rightarrow> string" where
  "show_path ab st =
     (if st = [] then (if ab then [slash] else ''.'') else root_dir ab @ join_path (rev st))"

text \<open>A canonical stack: names other than a dot; double dots only at the bottom of a relative one.\<close>

fun canonical :: "bool \<Rightarrow> string list \<Rightarrow> bool" where
  "canonical ab [] = True"
| "canonical ab (e # st) =
     (name e \<and> e \<noteq> ''.'' \<and> canonical ab st
      \<and> (e = ''..'' \<longrightarrow> \<not> ab \<and> (\<forall>d \<in> set st. d = ''..'')))"

lemma norm_step_walk:
  "fst (norm_step ab e (st, tr)) = (if e = [] then st else walk_step ab e st)"
  by (auto simp: norm_step_def walk_step_def split: list.splits)

lemma norm_fold_walk:
  "fst (fold (norm_step ab) es (st, tr)) = fold (walk_step ab) (filter (\<lambda>e. e \<noteq> []) es) st"
proof (induction es arbitrary: st tr)
  case (Cons e es)
  obtain st' tr' where "norm_step ab e (st, tr) = (st', tr')" by fastforce
  with norm_step_walk [of ab e st tr] Cons [of st' tr'] show ?case by simp
qed simp

lemma norm_elems_walk: "fst (norm_elems ab (rel_elems p)) = walk ab (segs p)"
  by (simp add: norm_elems_def norm_fold_walk walk_def rel_elems_segs)

lemma canonical_tl: "canonical ab st \<Longrightarrow> canonical ab (tl st)"
  by (cases st) auto

lemma canonical_walk_step: "canonical ab st \<Longrightarrow> name e \<Longrightarrow> canonical ab (walk_step ab e st)"
  by (cases st) (auto simp: walk_step_def name_def)

lemma canonical_fold: "canonical ab st \<Longrightarrow> \<forall>e \<in> set es. name e \<Longrightarrow> canonical ab (fold (walk_step ab) es st)"
  by (induction es arbitrary: st) (auto simp: canonical_walk_step)

lemma split_slash_notin: "e \<in> set (split_slash p) \<Longrightarrow> slash \<notin> set e"
proof (induction p arbitrary: e)
  case (Cons c p)
  have "hd (split_slash p) \<in> set (split_slash p)" by simp
  moreover have "x \<in> set (tl (split_slash p)) \<Longrightarrow> x \<in> set (split_slash p)" for x
    by (meson list.set_sel(2) split_slash_nonempty)
  ultimately show ?case using Cons by (auto split: if_splits)
qed simp

lemma segs_names: "\<forall>e \<in> set (segs p). name e"
  using split_slash_notin by (auto simp: segs_def name_def)

lemma canonical_walk: "canonical ab (walk ab (segs p))"
  using segs_names by (simp add: walk_def canonical_fold)

lemma canonical_names: "canonical ab st \<Longrightarrow> e \<in> set st \<Longrightarrow> name e \<and> e \<noteq> ''.''"
  by (induction st) auto

text \<open>Walking a canonical stack gives it back.\<close>

lemma walk_canonical: "canonical ab st \<Longrightarrow> walk ab (rev st) = st"
proof (induction st)
  case (Cons e st)
  then have "walk ab (rev st) = st" by simp
  moreover have "walk ab (rev (e # st)) = walk_step ab e (walk ab (rev st))" by (simp add: walk_def)
  moreover have "walk_step ab e st = e # st"
  proof (cases "e = ''..''")
    case True
    with Cons.prems have "\<not> ab" and "\<forall>d \<in> set st. d = ''..''" by simp_all
    moreover from this(2) have "st = [] \<or> hd st = ''..''" using hd_in_set [of st] by blast
    ultimately show ?thesis using True by (auto simp: walk_step_def)
  next
    case False
    with Cons.prems show ?thesis by (simp add: walk_step_def)
  qed
  ultimately show ?case by simp
qed (simp add: walk_def)

lemma elem_list_rev: "\<forall>e \<in> set es. name e \<Longrightarrow> elem_list es \<and> elem_list (es @ (if t \<and> es \<noteq> [] then [[]] else []))"
  by (induction es rule: elem_list.induct) auto

lemma join_path_last:
  "es \<noteq> [] \<Longrightarrow> \<forall>e \<in> set es. name e \<Longrightarrow> join_path es \<noteq> [] \<and> last (join_path es) \<noteq> slash"
  by (induction es rule: join_path.induct) (auto simp: name_def dest: last_in_set)

lemma join_path_snoc: "es \<noteq> [] \<Longrightarrow> join_path (es @ [[]]) = join_path es @ [slash]"
  by (induction es rule: join_path.induct) auto

section \<open>TrimTrailingSeparators\<close>

lemma trim_end_le: "trim_end s n \<le> n"
  by (induction s n rule: trim_end.induct) auto

lemma trim_end_slashes: "n \<le> length s \<Longrightarrow> \<forall>i. trim_end s n \<le> i \<and> i < n \<longrightarrow> s ! i = slash"
  by (induction s n rule: trim_end.induct) (auto simp: less_Suc_eq)

lemma trim_end_stop: "trim_end s n \<le> 1 \<or> s ! (trim_end s n - 1) \<noteq> slash"
  by (induction s n rule: trim_end.induct) auto

lemma trim_end_pos: "0 < n \<Longrightarrow> 0 < trim_end s n"
  by (induction s n rule: trim_end.induct) auto

lemma Trim_split: "\<exists>k. p = TrimTrailingSeparators p @ replicate k slash"
proof -
  let ?e = "trim_end p (length p)"
  have "drop ?e p = replicate (length p - ?e) slash"
    using trim_end_slashes [of "length p" p] trim_end_le [of p "length p"]
    by (intro nth_equalityI) auto
  then show ?thesis unfolding TrimTrailingSeparators_def by (metis append_take_drop_id)
qed

lemma segs_Trim [simp]: "segs (TrimTrailingSeparators p) = segs p"
  using Trim_split [of p] segs_replicate by metis

lemma is_absolute_Trim [simp]: "is_absolute (TrimTrailingSeparators p) = is_absolute p"
  using trim_end_pos [of "length p" p]
  by (cases p) (auto simp: TrimTrailingSeparators_def is_absolute_def hd_conv_nth)

lemma Trim_last: "length (TrimTrailingSeparators p) \<le> 1 \<or> last (TrimTrailingSeparators p) \<noteq> slash"
proof -
  let ?e = "trim_end p (length p)"
  have le: "?e \<le> length p" by (rule trim_end_le)
  show ?thesis
  proof (cases "?e \<le> 1")
    case True
    then have "length (take ?e p) \<le> 1" by simp
    then show ?thesis by (simp only: TrimTrailingSeparators_def simp_thms)
  next
    case False
    with trim_end_stop [of p "length p"] le have "last (take ?e p) \<noteq> slash"
      by (subst last_conv_nth) (auto simp: min_def)
    then show ?thesis by (simp add: TrimTrailingSeparators_def)
  qed
qed

lemma Trim_id: "last p \<noteq> slash \<Longrightarrow> TrimTrailingSeparators p = p"
  using Trim_split [of p] by (cases "p = []") (auto, metis append_Nil2 last_appendR last_replicate replicate_0)

lemma Trim_snoc:
  assumes "p \<noteq> []" "last p \<noteq> slash"
  shows "TrimTrailingSeparators (p @ [slash]) = p"
proof -
  obtain m where m: "length p = Suc m" using assms(1) by (cases p) auto
  have "trim_end (p @ [slash]) (Suc m) = Suc m"
  proof (cases m)
    case (Suc k)
    with assms m have "(p @ [slash]) ! Suc k \<noteq> slash" by (simp add: nth_append last_conv_nth)
    with Suc show ?thesis by simp
  qed simp
  with m show ?thesis by (simp add: TrimTrailingSeparators_def nth_append)
qed

section \<open>LexicalPath\<close>

lemma lexically_normal_trim:
  "TrimTrailingSeparators (generic_string (lexically_normal p)) =
     (if p = [] then [] else show_path (is_absolute p) (walk (is_absolute p) (segs p)))"
proof (cases "p = []")
  case True
  then show ?thesis by (simp add: lexically_normal_def generic_string_def is_absolute_def
        rel_elems_def root_dir_def TrimTrailingSeparators_def)
next
  case False
  let ?ab = "is_absolute p"
  obtain st tr where n: "norm_elems ?ab (rel_elems p) = (st, tr)" by fastforce
  with norm_elems_walk [of ?ab p] have st: "st = walk ?ab (segs p)" by simp
  show ?thesis
  proof (cases "st = []")
    case True
    have "TrimTrailingSeparators (generic_string [slash]) = [slash]"
      "TrimTrailingSeparators (generic_string ''.'') = ''.''" by code_simp+
    with True False n st show ?thesis by (simp add: lexically_normal_def show_path_def)
  next
    case ne: False
    let ?t = "tr \<and> hd st \<noteq> ''..''"
    let ?es = "rev st @ (if ?t \<and> rev st \<noteq> [] then [[]] else [])"
    have names: "\<forall>e \<in> set (rev st). name e"
      using canonical_names [OF canonical_walk [of ?ab p]] unfolding st by simp
    have p: "lexically_normal p = print_path ?ab ?es"
      using False n ne by (simp add: lexically_normal_def print_path_def join_path_snoc)
    have "generic_string (print_path ?ab ?es) = print_path ?ab ?es"
      using elem_list_rev [OF names] by (intro generic_string_print) blast
    moreover have "TrimTrailingSeparators (print_path ?ab ?es) = root_dir ?ab @ join_path (rev st)"
    proof (cases ?t)
      case True
      with ne join_path_last [OF _ names] show ?thesis
        using Trim_snoc [of "root_dir ?ab @ join_path (rev st)"]
        by (simp add: print_path_def join_path_snoc)
    next
      case False
      with ne join_path_last [OF _ names] show ?thesis
        using Trim_id [of "root_dir ?ab @ join_path (rev st)"] by (auto simp: print_path_def)
    qed
    ultimately show ?thesis using p ne False st by (simp add: show_path_def)
  qed
qed

lemma show_path_nonempty: "canonical ab st \<Longrightarrow> show_path ab st \<noteq> []"
  using canonical_names [of ab st] join_path_last [of "rev st"] by (auto simp: show_path_def)

lemma LexicalPath_walk:
  "LexicalPath p = show_path (is_absolute p) (walk (is_absolute p) (segs p))"
  using show_path_nonempty [OF canonical_walk [of "is_absolute p" p]]
  by (simp add: LexicalPath_def lexically_normal_trim)
     (simp add: walk_def show_path_def is_absolute_def)

lemma show_path_segs:
  assumes "canonical ab st"
  shows "is_absolute (show_path ab st) = ab"
    and "segs (show_path ab st) = (if st = [] \<and> \<not> ab then [''.''] else rev st)"
proof -
  have el: "elem_list (rev st)" and names: "\<forall>e \<in> set (rev st). name e"
    using canonical_names [OF assms] elem_list_rev [of "rev st" False] by auto
  show "is_absolute (show_path ab st) = ab"
    using print_path_absolute [OF el, of ab]
    by (cases "st = []") (auto simp: show_path_def print_path_def is_absolute_def)
  have "filter (\<lambda>e. e \<noteq> []) (rev st) = rev st" using names by (auto simp: name_def filter_id_conv)
  then have "segs (join_path (rev st)) = rev st" using join_path_segs [of "rev st"] el by simp
  then show "segs (show_path ab st) = (if st = [] \<and> \<not> ab then [''.''] else rev st)"
    by (auto simp: show_path_def root_dir_def) (simp_all add: segs_def)
qed

lemma LexicalPath_show:
  assumes "canonical ab st"
  shows "LexicalPath (show_path ab st) = show_path ab st"
  using assms show_path_segs [OF assms] walk_canonical [OF assms]
  by (simp add: LexicalPath_walk) (auto simp: walk_def walk_step_def)

text \<open>
  C22. LexicalPath (path.normalize, path.join, path.resolve) agrees with the reference
  normalisation: split at slashes, drop the empty and the dot segments, let a double dot remove
  the name before it, and print what is left. The result is canonical: no segment is a dot, a
  double dot survives only in front of a relative path, and "/" and "." stand for the empty
  lists.
\<close>
theorem lexical_path_reference:
  "LexicalPath p = show_path (is_absolute p) (walk (is_absolute p) (segs p))
   \<and> canonical (is_absolute p) (walk (is_absolute p) (segs p))
   \<and> is_absolute (LexicalPath p) = is_absolute p \<and> LexicalPath p \<noteq> []"
  using canonical_walk [of "is_absolute p" p] show_path_segs(1) show_path_nonempty
  by (simp add: LexicalPath_walk)

text \<open>
  LexicalPath is idempotent: a normalised path is its own normal form.
\<close>
theorem lexical_path_idempotent: "LexicalPath (LexicalPath p) = LexicalPath p"
  using LexicalPath_show [OF canonical_walk [of "is_absolute p" p]]
  unfolding LexicalPath_walk [of p] .

section \<open>Dirname and basename\<close>

lemma generic_string_name:
  assumes "name e"
  shows "generic_string e = e"
proof -
  from assms have hd: "e \<noteq> []" "hd e \<noteq> slash" by (auto simp: name_def dest: hd_in_set)
  then have "dropWhile (\<lambda>c. c = slash) e = e" by (intro dropWhile_hd)
  with hd elems_name [OF assms] show ?thesis
    by (simp add: generic_string_def rel_elems_def root_dir_def is_absolute_def)
qed

lemma walk_dot: "walk ab (''.'' # es) = walk ab es"
  by (simp add: walk_def walk_step_def)

lemma last_name_split:
  assumes "c \<noteq> []" "last c \<noteq> slash"
  obtains q b where "c = q @ b" "name b" "q = [] \<or> last q = slash"
    "rev (dropWhile (\<lambda>x. x \<noteq> slash) (rev c)) = q" "last (split_slash c) = b"
proof -
  let ?b = "rev (takeWhile (\<lambda>x. x \<noteq> slash) (rev c))"
  let ?q = "rev (dropWhile (\<lambda>x. x \<noteq> slash) (rev c))"
  have c: "c = ?q @ ?b" by (metis rev_append rev_rev_ident takeWhile_dropWhile_id)
  have "takeWhile (\<lambda>x. x \<noteq> slash) (rev c) \<noteq> []"
    using assms by (cases c rule: rev_cases) auto
  then have b: "name ?b" unfolding name_def using slash_notin_takeWhile [of "rev c"] by simp
  have q: "?q = [] \<or> last ?q = slash"
    using hd_dropWhile [of "\<lambda>x. x \<noteq> slash" "rev c"] by (auto simp: last_rev simp del: dropWhile_eq_Nil_conv)
  have "last (split_slash (?q @ ?b)) = ?b"
  proof (cases "?q = []")
    case True
    with b show ?thesis by (simp only: append_Nil) (simp add: split_slash_plain name_def)
  next
    case False
    then obtain q' where "?q = q' @ [slash]" using q by (metis append_butlast_last_id)
    with b show ?thesis using split_slash_append [of q' ?b] by (simp add: split_slash_plain name_def)
  qed
  with c b q that show thesis by metis
qed

text \<open>What \<open>parent_path\<close> makes of the part before the last name: that part without its trailing slashes.\<close>

definition up :: "string \<Rightarrow> string" where
  "up q = (let q' = rev (dropWhile (\<lambda>c. c = slash) (rev q))
           in if q = [] then [] else if q' = [] then [slash] else q')"

lemma trailing_slashes: "\<exists>k. q = rev (dropWhile (\<lambda>c. c = slash) (rev q)) @ replicate k slash"
proof -
  define k where "k = length (takeWhile (\<lambda>c. c = slash) (rev q))"
  have "takeWhile (\<lambda>c. c = slash) (rev q) = replicate k slash"
    unfolding k_def by (intro replicate_eqI) (auto dest: set_takeWhileD)
  then show ?thesis by (metis rev_append rev_replicate rev_rev_ident takeWhile_dropWhile_id)
qed

lemma up_facts: "segs (up q) = segs q" "is_absolute (up q) = is_absolute q"
proof -
  obtain q' k where q': "q' = rev (dropWhile (\<lambda>c. c = slash) (rev q))" "q = q' @ replicate k slash"
    using trailing_slashes [of q] by blast
  have u: "up q = (if q = [] then [] else if q' = [] then [slash] else q')"
    by (simp only: up_def Let_def q'(1) [symmetric])
  have s: "segs q = segs q'" using segs_replicate q'(2) by metis
  consider "q = []" | "q \<noteq> []" "q' = []" | "q \<noteq> []" "q' \<noteq> []" by blast
  then have "segs (up q) = segs q \<and> is_absolute (up q) = is_absolute q"
  proof cases
    case 2
    then have "hd q = slash" using q'(2) by (cases k) auto
    with 2 u s show ?thesis by (simp add: is_absolute_def segs_def)
  next
    case 3
    then have "hd q' = hd q" using q'(2) by (metis hd_append2)
    with 3 u s show ?thesis by (simp add: is_absolute_def)
  qed (simp add: up_def)
  then show "segs (up q) = segs q" "is_absolute (up q) = is_absolute q" by blast+
qed

lemma segs_last_name:
  assumes "name b" "q = [] \<or> last q = slash"
  shows "segs (q @ b) = segs q @ [b]"
proof (cases "q = []")
  case False
  with assms(2) obtain q0 where "q = q0 @ [slash]" by (metis append_butlast_last_id)
  with assms(1) show ?thesis by (simp add: segs_name)
qed (use assms segs_name in simp)

lemma parent_filename_segs:
  assumes "c \<noteq> []" "last c \<noteq> slash"
  shows "segs c = segs (parent_path c) @ [filename c]" and "name (filename c)"
    and "is_absolute (parent_path c) = is_absolute c"
proof -
  obtain q b where c: "c = q @ b" "name b" "q = [] \<or> last q = slash"
    "rev (dropWhile (\<lambda>x. x \<noteq> slash) (rev c)) = q" "last (split_slash c) = b"
    using last_name_split [OF assms] by blast
  have nz: "dropWhile (\<lambda>x. x = slash) c \<noteq> []"
    using assms last_in_set [of c] by (subst dropWhile_eq_Nil_conv) blast
  then have f: "filename c = b" using c(5) by (simp only: filename_segs if_False)
  have "rel_elems c \<noteq> []" using elems_nonempty [OF nz] by (simp only: rel_elems_def simp_thms)
  then have pp: "parent_path c = up q"
    using c(4) by (simp only: parent_path_def up_def Let_def if_False simp_thms)
  show "segs c = segs (parent_path c) @ [filename c]" using segs_last_name [OF c(2,3)] c(1) f pp up_facts(1) by simp
  show "name (filename c)" using c(2) f by simp
  have "is_absolute q = is_absolute c"
    using c(1,2) by (cases q) (auto simp: is_absolute_def name_def dest: hd_in_set)
  then show "is_absolute (parent_path c) = is_absolute c" using pp up_facts(2) by simp
qed

text \<open>
  C35. path.dirname and path.basename take a path apart without loss: joining the two parts
  again and normalising gives the normal form of the path, whatever trailing slashes it had.
\<close>
theorem dirname_basename_recompose:
  "LexicalPath (path_append (PathDirname p) (PathBasename p)) = LexicalPath p"
proof -
  let ?c = "TrimTrailingSeparators p"
  have base: "LexicalPath ?c = LexicalPath p" by (simp add: LexicalPath_walk)
  consider "?c = []" | "?c = [slash]" | "?c \<noteq> []" "?c \<noteq> [slash]" "last ?c \<noteq> slash"
    using Trim_last [of p] by (cases ?c; cases "tl ?c") auto
  then show ?thesis
  proof cases
    case 1
    then have "p = []" using Trim_split [of p] trim_end_pos [of "length p" p]
      by (cases p) (auto simp: TrimTrailingSeparators_def)
    then show ?thesis by (simp only:) code_simp
  next
    case 2
    then have "PathDirname p = [slash]" "PathBasename p = [slash]"
      by (simp_all add: PathDirname_def PathBasename_def)
    then show ?thesis by (simp only: base [symmetric] 2) code_simp
  next
    case 3
    note pf = parent_filename_segs [OF 3(1,3)]
    have b: "PathBasename p = filename ?c"
      using 3(2) generic_string_name [OF pf(2)] by (simp add: PathBasename_def)
    have nabs: "\<not> is_absolute (filename ?c)" using pf(2) by (auto simp: is_absolute_def name_def dest: hd_in_set)
    let ?g = "generic_string (parent_path ?c)"
    have d: "PathDirname p = (if ?g = [] then ''.'' else ?g)" using 3(2) by (simp add: PathDirname_def)
    have ab: "is_absolute (PathDirname p) = is_absolute p"
    proof (cases "?g = []")
      case True
      then have "\<not> is_absolute ?g" by (simp add: is_absolute_def)
      then have "\<not> is_absolute p" using pf(3) unfolding generic_string_absolute by simp
      with True show ?thesis unfolding d by (simp add: is_absolute_def [of "''.''"])
    next
      case False
      with pf(3) show ?thesis unfolding d by simp
    qed
    have sg: "segs (PathDirname p) = (if ?g = [] then [''.''] else segs ?g)" unfolding d by (simp add: segs_def)
    have "?g = [] \<Longrightarrow> segs (parent_path ?c) = []" by (metis generic_string_segs segs_Nil)
    then show ?thesis using ab sg nabs pf(1) b walk_dot segs_name [OF pf(2)]
      by (simp add: LexicalPath_walk segs_path_append is_absolute_path_append)
  qed
qed

end
