(* ===== verification/V8Helpers.thy ===== *)
theory V8Helpers
  imports FsPath Complex_Main
begin

text \<open>
  The values that Kode's native callbacks exchange with V8, and the helpers of
  \<open>src/v8/v8_helpers.cc\<close> that build and read them. V8 itself is a parameter: a record with the
  conversions and property reads that the callbacks use. A string value is its UTF-8 encoding,
  which is what \<open>v8::String::Utf8Value\<close> yields.
\<close>

section \<open>Values\<close>

text \<open>A double: not a number, an infinity, or a finite value.\<close>

datatype jsnum = NaN | Infinity | NegInfinity | Fin rat

record kode_error =
  err_message :: string
  err_code :: string
  err_operation :: string
  err_path :: string

text \<open>The bytes behind a \<open>Uint8Array\<close> or \<open>DataView\<close> (buffer, offset, length) or an \<open>ArrayBuffer\<close>.\<close>

datatype bytes_value =
    View "u8 list" nat nat
  | Buffer "u8 list"

datatype jsval =
    JUndefined
  | JNull
  | JBool bool
  | JNum jsnum
  | JStr string
  | JUser nat                              \<comment> \<open>an object of the script\<close>
  | JHost "(string \<times> jsval) list" bool    \<comment> \<open>an object made by a callback; frozen?\<close>
  | JArr "jsval list" bool                 \<comment> \<open>an array made by a callback; frozen?\<close>
  | JFun string                            \<comment> \<open>a function, by name\<close>
  | JErr kode_error                        \<comment> \<open>an Error object made by \<open>CreateKodeError\<close>\<close>
  | JBytes bytes_value

text \<open>
  What a callback asks of V8: the string made from UTF-8 bytes (invalid sequences replaced), the
  read of a property of a script object (\<^term>\<open>None\<close> when a getter throws), the strings that
  \<open>ToString\<close> gives for values that are not strings and the length that a string cannot exceed.
\<close>

record v8 =
  utf8 :: "string \<Rightarrow> string"
  get_prop :: "nat \<Rightarrow> string \<Rightarrow> jsval option"
  to_string :: "jsval \<Rightarrow> string"
  max_length :: nat

text \<open>A callback returns a value or leaves an exception pending on the isolate.\<close>

datatype outcome = Return jsval | Throw jsval

fun IsString :: "jsval \<Rightarrow> bool" where
  "IsString (JStr s) = True"
| "IsString v = False"

fun IsUndefined :: "jsval \<Rightarrow> bool" where
  "IsUndefined JUndefined = True"
| "IsUndefined v = False"

fun IsNull :: "jsval \<Rightarrow> bool" where
  "IsNull JNull = True"
| "IsNull v = False"

fun IsNumber :: "jsval \<Rightarrow> bool" where
  "IsNumber (JNum n) = True"
| "IsNumber v = False"

fun IsFunction :: "jsval \<Rightarrow> bool" where
  "IsFunction (JFun f) = True"
| "IsFunction v = False"

fun IsObject :: "jsval \<Rightarrow> bool" where
  "IsObject JUndefined = False"
| "IsObject JNull = False"
| "IsObject (JBool b) = False"
| "IsObject (JNum n) = False"
| "IsObject (JStr s) = False"
| "IsObject v = True"

fun BooleanValue :: "jsval \<Rightarrow> bool" where
  "BooleanValue JUndefined = False"
| "BooleanValue JNull = False"
| "BooleanValue (JBool b) = b"
| "BooleanValue (JNum n) = (n \<noteq> NaN \<and> n \<noteq> Fin 0)"
| "BooleanValue (JStr s) = (s \<noteq> [])"
| "BooleanValue v = True"

text \<open>\<open>Object::Get\<close>: a missing property reads as undefined.\<close>

fun Get :: "v8 \<Rightarrow> jsval \<Rightarrow> string \<Rightarrow> jsval option" where
  "Get v (JUser n) k = get_prop v n k"
| "Get v (JHost props f) k = Some (case map_of props k of Some x \<Rightarrow> x | None \<Rightarrow> JUndefined)"
| "Get v (JErr e) k = Some
     (if k = ''message'' then JStr (err_message e)
      else if k = ''code'' then JStr (err_code e)
      else if k = ''operation'' then JStr (err_operation e)
      else if k = ''path'' then JStr (err_path e) else JUndefined)"
| "Get v x k = Some JUndefined"

text \<open>\<open>Object::Set\<close> on an object made by a callback: a frozen object keeps its properties.\<close>

fun SetProp :: "jsval \<Rightarrow> string \<Rightarrow> jsval \<Rightarrow> jsval" where
  "SetProp (JHost props False) k x =
     JHost (if map_of props k = None then props @ [(k, x)]
            else map (\<lambda>(k', y). (k', if k' = k then x else y)) props) False"
| "SetProp v k x = v"

section \<open>The helpers\<close>

text \<open>The bytes before the first NUL: what a \<open>const char*\<close> argument means.\<close>

definition c_str :: "string \<Rightarrow> string" where
  "c_str s = takeWhile (\<lambda>c. c \<noteq> char_of (0::nat)) s"

definition V8String :: "v8 \<Rightarrow> string \<Rightarrow> jsval" where
  "V8String v s = JStr (utf8 v (c_str s))"

definition CreateKodeError :: "v8 \<Rightarrow> string \<Rightarrow> string \<Rightarrow> string \<Rightarrow> string \<Rightarrow> jsval" where
  "CreateKodeError v code message operation path = JErr \<lparr>
     err_message = utf8 v (c_str message), err_code = utf8 v (c_str code),
     err_operation = utf8 v (c_str operation), err_path = utf8 v (c_str path) \<rparr>"

definition ReadStringArg :: "v8 \<Rightarrow> jsval list \<Rightarrow> nat \<Rightarrow> string \<Rightarrow> jsval + string" where
  "ReadStringArg v args i operation =
     (let bad = Inl (CreateKodeError v ''EINVAL'' (operation @ '' requires string arguments'') operation [])
      in if length args \<le> i then bad
         else (case args ! i of JStr s \<Rightarrow> Inr s | _ \<Rightarrow> bad))"

text \<open>
  \<open>FormatTryCatch\<close>: the message of the pending exception has a resource name and a line, or there
  is no message.
\<close>

definition FormatTryCatch :: "(string \<times> nat) option \<Rightarrow> string \<Rightarrow> string \<Rightarrow> string" where
  "FormatTryCatch message exception fallback_file =
     (let file = (case message of Some (resource, l) \<Rightarrow> if resource \<noteq> [] then resource else fallback_file
                  | None \<Rightarrow> fallback_file);
          line = (case message of Some (resource, l) \<Rightarrow> l | None \<Rightarrow> 0);
          text = (if exception \<noteq> [] then exception else ''JavaScript error'')
      in if 0 < line then file @ '':'' @ nat_to_dec line @ '': '' @ text else file @ '': '' @ text)"

fun FreezeValue :: "jsval \<Rightarrow> jsval" where
  "FreezeValue (JHost props f) = JHost props True"
| "FreezeValue (JArr xs f) = JArr xs True"
| "FreezeValue v = v"

text \<open>A promise; \<open>Resolve\<close> and \<open>Reject\<close> settle it once.\<close>

datatype promise = Pending | Fulfilled jsval | Rejected jsval

fun ResolvePromise :: "promise \<Rightarrow> jsval \<Rightarrow> promise" where
  "ResolvePromise Pending v = Fulfilled v"
| "ResolvePromise p v = p"

fun RejectPromise :: "promise \<Rightarrow> jsval \<Rightarrow> promise" where
  "RejectPromise Pending v = Rejected v"
| "RejectPromise p v = p"

section \<open>src/v8/builtins/path.cc\<close>

definition strip_separators :: "string \<Rightarrow> string" where
  "strip_separators part = dropWhile (\<lambda>c. c = slash \<or> c = char_of (92::nat)) part"

fun join_loop :: "v8 \<Rightarrow> jsval list \<Rightarrow> nat \<Rightarrow> nat \<Rightarrow> string \<Rightarrow> jsval + string" where
  "join_loop v args i 0 path = Inr path"
| "join_loop v args i (Suc n) path =
     (case ReadStringArg v args i ''kode:path.join'' of
        Inl err \<Rightarrow> Inl err
      | Inr part \<Rightarrow>
          join_loop v args (Suc i) n
            (path_append path (if 0 < i then strip_separators part else part)))"

definition PathJoinCallback :: "v8 \<Rightarrow> jsval list \<Rightarrow> outcome" where
  "PathJoinCallback v args =
     (case join_loop v args 0 (length args) [] of
        Inl err \<Rightarrow> Throw err
      | Inr path \<Rightarrow> Return (V8String v (LexicalPath path)))"

text \<open>The five callbacks that read one path differ in their name and in the result.\<close>

definition path1 :: "v8 \<Rightarrow> jsval list \<Rightarrow> string \<Rightarrow> (string \<Rightarrow> jsval) \<Rightarrow> outcome" where
  "path1 v args operation f =
     (case ReadStringArg v args 0 operation of Inl err \<Rightarrow> Throw err | Inr path \<Rightarrow> Return (f path))"

definition PathNormalizeCallback :: "v8 \<Rightarrow> jsval list \<Rightarrow> outcome" where
  "PathNormalizeCallback v args = path1 v args ''kode:path.normalize'' (\<lambda>p. V8String v (LexicalPath p))"

definition PathDirnameCallback :: "v8 \<Rightarrow> jsval list \<Rightarrow> outcome" where
  "PathDirnameCallback v args = path1 v args ''kode:path.dirname'' (\<lambda>p. V8String v (PathDirname p))"

definition PathBasenameCallback :: "v8 \<Rightarrow> jsval list \<Rightarrow> outcome" where
  "PathBasenameCallback v args = path1 v args ''kode:path.basename'' (\<lambda>p. V8String v (PathBasename p))"

definition PathExtnameCallback :: "v8 \<Rightarrow> jsval list \<Rightarrow> outcome" where
  "PathExtnameCallback v args =
     path1 v args ''kode:path.extname'' (\<lambda>p. V8String v (generic_string (extension p)))"

definition PathIsAbsoluteCallback :: "v8 \<Rightarrow> jsval list \<Rightarrow> outcome" where
  "PathIsAbsoluteCallback v args = path1 v args ''kode:path.isAbsolute'' (\<lambda>p. JBool (is_absolute p))"

fun resolve_loop :: "v8 \<Rightarrow> jsval list \<Rightarrow> nat \<Rightarrow> nat \<Rightarrow> string \<Rightarrow> jsval + string" where
  "resolve_loop v args i 0 path = Inr path"
| "resolve_loop v args i (Suc n) path =
     (case ReadStringArg v args i ''kode:path.resolve'' of
        Inl err \<Rightarrow> Inl err
      | Inr part \<Rightarrow>
          resolve_loop v args (Suc i) n (if is_absolute part then part else path_append path part))"

definition PathResolveCallback :: "v8 \<Rightarrow> string \<Rightarrow> jsval list \<Rightarrow> outcome" where
  "PathResolveCallback v cwd args =
     (case resolve_loop v args 0 (length args) cwd of
        Inl err \<Rightarrow> Throw err
      | Inr path \<Rightarrow> Return (V8String v (LexicalPath path)))"

definition CreatePathModule :: jsval where
  "CreatePathModule = JHost
     [(''join'', JFun ''PathJoinCallback''), (''normalize'', JFun ''PathNormalizeCallback''),
      (''dirname'', JFun ''PathDirnameCallback''), (''basename'', JFun ''PathBasenameCallback''),
      (''extname'', JFun ''PathExtnameCallback''), (''isAbsolute'', JFun ''PathIsAbsoluteCallback''),
      (''resolve'', JFun ''PathResolveCallback'')] False"

section \<open>Properties of the path callbacks\<close>

lemma ReadStringArg_JStr: "i < length ps \<Longrightarrow> ReadStringArg v (map JStr ps) i op = Inr (ps ! i)"
  by (simp add: ReadStringArg_def Let_def)

lemma path_append_join_loop:
  "i + n = length ps \<Longrightarrow> 0 < i \<Longrightarrow>
     join_loop v (map JStr ps) i n path
       = Inr (fold (\<lambda>p acc. path_append acc (strip_separators p)) (drop i ps) path)"
proof (induction v "map JStr ps" i n path rule: join_loop.induct)
  case (2 v i n path)
  then have "drop i ps = ps ! i # drop (Suc i) ps" by (simp add: Cons_nth_drop_Suc)
  with 2 show ?case by (simp add: ReadStringArg_JStr)
qed simp

lemma strip_separators_relative: "\<not> is_absolute (strip_separators p)"
  using hd_dropWhile [of "\<lambda>c. c = slash \<or> c = char_of (92::nat)" p]
  unfolding strip_separators_def is_absolute_def by blast

lemma join_fold_segs:
  "segs (fold (\<lambda>p acc. path_append acc (strip_separators p)) ps path)
     = segs path @ concat (map (\<lambda>p. segs (strip_separators p)) ps)
   \<and> is_absolute (fold (\<lambda>p acc. path_append acc (strip_separators p)) ps path) = is_absolute path"
  by (induction ps arbitrary: path)
     (simp_all add: segs_path_append strip_separators_relative is_absolute_path_append)

lemma path_append_Nil: "path_append [] p = p"
  by (simp add: path_append_def filename_def rel_elems_def)

text \<open>
  C36. path.join on strings concatenates the segments of its arguments and normalises them. The
  first argument alone decides whether the result is absolute: leading separators of the later
  arguments are dropped, so that an absolute-looking segment cannot replace what comes before it.
\<close>
theorem path_join_segments:
  "PathJoinCallback v (map JStr (p # ps)) =
     Return (V8String v (show_path (is_absolute p)
       (walk (is_absolute p) (segs p @ concat (map (\<lambda>q. segs (strip_separators q)) ps)))))"
  using path_append_join_loop [of 1 "length ps" "p # ps" v p] join_fold_segs [of ps p]
    ReadStringArg_JStr [of 0 "p # ps" v]
  by (simp add: PathJoinCallback_def LexicalPath_walk path_append_Nil)

definition resolve_segs :: "string list \<Rightarrow> string list \<Rightarrow> string list" where
  "resolve_segs base ps = fold (\<lambda>p acc. if is_absolute p then segs p else acc @ segs p) ps base"

lemma resolve_loop_strings:
  "i + n = length ps \<Longrightarrow> is_absolute path \<Longrightarrow>
     \<exists>q. resolve_loop v (map JStr ps) i n path = Inr q \<and> is_absolute q
        \<and> segs q = resolve_segs (segs path) (drop i ps)"
proof (induction v "map JStr ps" i n path rule: resolve_loop.induct)
  case (2 v i n path)
  then have d: "drop i ps = ps ! i # drop (Suc i) ps" by (simp add: Cons_nth_drop_Suc)
  let ?path = "if is_absolute (ps ! i) then ps ! i else path_append path (ps ! i)"
  have "is_absolute ?path" using "2.prems" by (simp add: is_absolute_path_append)
  with 2 obtain q where "resolve_loop v (map JStr ps) (Suc i) n ?path = Inr q" "is_absolute q"
    "segs q = resolve_segs (segs ?path) (drop (Suc i) ps)"
    by (auto simp: ReadStringArg_JStr)
  moreover have "segs ?path = (if is_absolute (ps ! i) then segs (ps ! i) else segs path @ segs (ps ! i))"
    by (simp add: segs_path_append)
  ultimately show ?case using "2.prems" d by (simp add: ReadStringArg_JStr resolve_segs_def)
qed (simp add: resolve_segs_def)

text \<open>
  path.resolve on strings gives an absolute normalised path when the current directory is
  absolute: the segments from the last absolute argument on (or from the current directory),
  walked from the root.
\<close>
theorem path_resolve_absolute:
  "is_absolute cwd \<Longrightarrow>
     PathResolveCallback v cwd (map JStr ps) =
       Return (V8String v (show_path True (walk True (resolve_segs (segs cwd) ps))))"
  using resolve_loop_strings [of 0 "length ps" ps cwd v]
  by (auto simp: PathResolveCallback_def LexicalPath_walk)

definition plain_v8 :: v8 where
  "plain_v8 = \<lparr> utf8 = (\<lambda>s. s), get_prop = (\<lambda>n k. Some JUndefined), to_string = (\<lambda>x. []), max_length = 1000 \<rparr>"

theorem path_resolve_absolute_witness:
  "is_absolute ''/home/u'' \<and>
   PathResolveCallback plain_v8 ''/home/u'' (map JStr [''a'', ''/tmp/x'', ''..'', ''.'']) =
     Return (JStr ''/tmp'')"
proof -
  have "is_absolute ''/home/u''" by code_simp
  from path_resolve_absolute [OF this, of plain_v8 "[''a'', ''/tmp/x'', ''..'', ''.'']"]
  have "PathResolveCallback plain_v8 ''/home/u'' (map JStr [''a'', ''/tmp/x'', ''..'', ''.'']) =
    Return (V8String plain_v8 (show_path True (walk True
      (resolve_segs (segs ''/home/u'') [''a'', ''/tmp/x'', ''..'', ''.'']))))" .
  moreover have "show_path True (walk True
      (resolve_segs (segs ''/home/u'') [''a'', ''/tmp/x'', ''..'', ''.''])) = ''/tmp''" by code_simp
  moreover have "V8String plain_v8 ''/tmp'' = JStr ''/tmp''" by (simp add: V8String_def plain_v8_def c_str_def char_of_def)
  ultimately show ?thesis using \<open>is_absolute ''/home/u''\<close> by simp
qed

end
