(* ===== verification/Sha256.thy ===== *)
theory Sha256
  imports V8Helpers
begin

unbundle bit_operations_syntax

text \<open>
  \<open>src/v8/builtins/crypto.cc\<close>: the SHA-256 routine on \<open>uint32_t\<close> words (additions wrap), the
  hexadecimal printer and the \<open>kode:crypto\<close> module. A reference in the style of FIPS 180-4
  (schedule by recursion, rotations of the word library, blocks by position) follows, with the
  proof that the loops of the code compute it.
\<close>

section \<open>The code\<close>

definition kSha256Constants :: "u32 list" where
  "kSha256Constants = concat
    [[0x428a2f98, 0x71374491, 0xb5c0fbcf, 0xe9b5dba5], [0x3956c25b, 0x59f111f1, 0x923f82a4, 0xab1c5ed5],
     [0xd807aa98, 0x12835b01, 0x243185be, 0x550c7dc3], [0x72be5d74, 0x80deb1fe, 0x9bdc06a7, 0xc19bf174],
     [0xe49b69c1, 0xefbe4786, 0x0fc19dc6, 0x240ca1cc], [0x2de92c6f, 0x4a7484aa, 0x5cb0a9dc, 0x76f988da],
     [0x983e5152, 0xa831c66d, 0xb00327c8, 0xbf597fc7], [0xc6e00bf3, 0xd5a79147, 0x06ca6351, 0x14292967],
     [0x27b70a85, 0x2e1b2138, 0x4d2c6dfc, 0x53380d13], [0x650a7354, 0x766a0abb, 0x81c2c92e, 0x92722c85],
     [0xa2bfe8a1, 0xa81a664b, 0xc24b8b70, 0xc76c51a3], [0xd192e819, 0xd6990624, 0xf40e3585, 0x106aa070],
     [0x19a4c116, 0x1e376c08, 0x2748774c, 0x34b0bcb5], [0x391c0cb3, 0x4ed8aa4a, 0x5b9cca4f, 0x682e6ff3],
     [0x748f82ee, 0x78a5636f, 0x84c87814, 0x8cc70208], [0x90befffa, 0xa4506ceb, 0xbef9a3f7, 0xc67178f2]]"

definition RotateRight :: "u32 \<Rightarrow> nat \<Rightarrow> u32" where
  "RotateRight value bits = drop_bit bits value OR push_bit (32 - bits) value"

function pad_zeros :: "u8 list \<Rightarrow> u8 list" where
  "pad_zeros bytes = (if length bytes mod 64 = 56 then bytes else pad_zeros (bytes @ [0]))"
  by pat_completeness auto
termination
proof (relation "measure (\<lambda>bytes. if length bytes mod 64 \<le> 56 then 56 - length bytes mod 64
                                      else 120 - length bytes mod 64)")
  fix bytes :: "u8 list"
  have "length bytes mod 64 < 64" by simp
  moreover assume "length bytes mod 64 \<noteq> 56"
  ultimately show "(bytes @ [0], bytes) \<in> measure (\<lambda>bytes. if length bytes mod 64 \<le> 56
      then 56 - length bytes mod 64 else 120 - length bytes mod 64)"
    by (auto simp: mod_Suc split: if_splits)
qed simp

declare pad_zeros.simps [simp del]

text \<open>The loop that appends the bit length, from index \<open>i - 1\<close> down to 0.\<close>

fun push_length :: "u64 \<Rightarrow> nat \<Rightarrow> u8 list \<Rightarrow> u8 list" where
  "push_length bit_length 0 bytes = bytes"
| "push_length bit_length (Suc i) bytes =
     push_length bit_length i (bytes @ [ucast (drop_bit (i * 8) bit_length AND 0xff)])"

definition pad_message :: "u8 list \<Rightarrow> u8 list" where
  "pad_message input =
     push_length (of_nat (length input) * 8) 8 (pad_zeros (input @ [0x80]))"

definition word_at :: "u8 list \<Rightarrow> nat \<Rightarrow> u32" where
  "word_at bytes offset =
     push_bit 24 (ucast (bytes ! offset)) OR push_bit 16 (ucast (bytes ! (offset + 1)))
     OR push_bit 8 (ucast (bytes ! (offset + 2))) OR ucast (bytes ! (offset + 3))"

text \<open>The first loop fills \<open>words[0..15]\<close>, the second one the rest; \<open>n\<close> iterations remain.\<close>

fun load_words :: "u8 list \<Rightarrow> nat \<Rightarrow> nat \<Rightarrow> nat \<Rightarrow> u32 list \<Rightarrow> u32 list" where
  "load_words bytes chunk i 0 words = words"
| "load_words bytes chunk i (Suc n) words =
     load_words bytes chunk (Suc i) n (words[i := word_at bytes (chunk + i * 4)])"

fun extend_words :: "nat \<Rightarrow> nat \<Rightarrow> u32 list \<Rightarrow> u32 list" where
  "extend_words i 0 words = words"
| "extend_words i (Suc n) words =
     (let s0 = RotateRight (words ! (i - 15)) 7 XOR RotateRight (words ! (i - 15)) 18
               XOR drop_bit 3 (words ! (i - 15));
          s1 = RotateRight (words ! (i - 2)) 17 XOR RotateRight (words ! (i - 2)) 19
               XOR drop_bit 10 (words ! (i - 2))
      in extend_words (Suc i) n (words[i := words ! (i - 16) + s0 + words ! (i - 7) + s1]))"

definition schedule :: "u8 list \<Rightarrow> nat \<Rightarrow> u32 list" where
  "schedule bytes chunk = extend_words 16 48 (load_words bytes chunk 0 16 (replicate 64 0))"

type_synonym regs = "u32 \<times> u32 \<times> u32 \<times> u32 \<times> u32 \<times> u32 \<times> u32 \<times> u32"

definition sha_round :: "u32 \<Rightarrow> u32 \<Rightarrow> regs \<Rightarrow> regs" where
  "sha_round k w r =
     (case r of (a, b, c, d, e, f, g, h) \<Rightarrow>
        let s1 = RotateRight e 6 XOR RotateRight e 11 XOR RotateRight e 25;
            ch = (e AND f) XOR (NOT e AND g);
            temp1 = h + s1 + ch + k + w;
            s0 = RotateRight a 2 XOR RotateRight a 13 XOR RotateRight a 22;
            maj = (a AND b) XOR (a AND c) XOR (b AND c);
            temp2 = s0 + maj
        in (temp1 + temp2, a, b, c, d + temp1, e, f, g))"

fun sha_rounds :: "u32 list \<Rightarrow> nat \<Rightarrow> nat \<Rightarrow> regs \<Rightarrow> regs" where
  "sha_rounds words i 0 r = r"
| "sha_rounds words i (Suc n) r =
     sha_rounds words (Suc i) n (sha_round (kSha256Constants ! i) (words ! i) r)"

definition add_regs :: "regs \<Rightarrow> regs \<Rightarrow> regs" where
  "add_regs x y =
     (case x of (a, b, c, d, e, f, g, h) \<Rightarrow> case y of (a', b', c', d', e', f', g', h') \<Rightarrow>
        (a + a', b + b', c + c', d + d', e + e', f + f', g + g', h + h'))"

definition hash_chunk :: "u8 list \<Rightarrow> nat \<Rightarrow> regs \<Rightarrow> regs" where
  "hash_chunk bytes chunk hash = add_regs hash (sha_rounds (schedule bytes chunk) 0 64 hash)"

function hash_chunks :: "u8 list \<Rightarrow> nat \<Rightarrow> regs \<Rightarrow> regs" where
  "hash_chunks bytes chunk hash =
     (if chunk < length bytes then hash_chunks bytes (chunk + 64) (hash_chunk bytes chunk hash)
      else hash)"
  by pat_completeness auto
termination by (relation "measure (\<lambda>(bytes, chunk, hash). length bytes - chunk)") auto

declare hash_chunks.simps [simp del]

definition initial_hash :: regs where
  "initial_hash = (0x6a09e667, 0xbb67ae85, 0x3c6ef372, 0xa54ff53a,
                   0x510e527f, 0x9b05688c, 0x1f83d9ab, 0x5be0cd19)"

definition word_bytes :: "u32 \<Rightarrow> u8 list" where
  "word_bytes w = [ucast (drop_bit 24 w AND 0xff), ucast (drop_bit 16 w AND 0xff),
                   ucast (drop_bit 8 w AND 0xff), ucast (w AND 0xff)]"

definition digest_bytes :: "regs \<Rightarrow> u8 list" where
  "digest_bytes r =
     (case r of (a, b, c, d, e, f, g, h) \<Rightarrow> concat (map word_bytes [a, b, c, d, e, f, g, h]))"

definition string_bytes :: "string \<Rightarrow> u8 list" where
  "string_bytes s = map (\<lambda>c. of_nat (of_char c)) s"

definition sha256_digest :: "string \<Rightarrow> u8 list" where
  "sha256_digest input =
     (let bytes = pad_message (string_bytes input)
      in digest_bytes (hash_chunks bytes 0 initial_hash))"

text \<open>\<open>std::hex\<close>, width 2, fill character 0.\<close>

definition hex_digit :: "nat \<Rightarrow> char" where
  "hex_digit n = ''0123456789abcdef'' ! n"

definition hex_byte :: "u8 \<Rightarrow> string" where
  "hex_byte b = [hex_digit (unat b div 16), hex_digit (unat b mod 16)]"

definition ToHex :: "u8 list \<Rightarrow> string" where
  "ToHex bytes = concat (map hex_byte bytes)"

definition HashCallback :: "v8 \<Rightarrow> jsval list \<Rightarrow> outcome" where
  "HashCallback v args =
     (case ReadStringArg v args 0 ''kode:crypto.hash'' of
        Inl err \<Rightarrow> Throw err
      | Inr algorithm \<Rightarrow>
         (case ReadStringArg v args 1 ''kode:crypto.hash'' of
            Inl err \<Rightarrow> Throw err
          | Inr data \<Rightarrow>
              if algorithm \<noteq> ''sha256'' then
                Throw (CreateKodeError v ''EUNSUPPORTED_ALGORITHM''
                  (''Unsupported hash algorithm '' @ [char_of (39::nat)] @ algorithm @ [char_of (39::nat)])
                  ''kode:crypto.hash'' algorithm)
              else Return (SetProp (SetProp (JHost [] False)
                     ''algorithm'' (V8String v ''sha256''))
                     ''hex'' (V8String v (ToHex (sha256_digest data))))))"

definition CreateCryptoModule :: jsval where
  "CreateCryptoModule = JHost [(''hash'', JFun ''HashCallback'')] False"

section \<open>The constants\<close>

text \<open>
  FIPS 180-4 takes the constants from the first 32 bits of the fractional parts of the cube roots
  of the first 64 primes, and the initial hash from the square roots of the first eight.
\<close>

fun sieve :: "int list \<Rightarrow> int list" where
  "sieve [] = []"
| "sieve (p # ns) = p # sieve (filter (\<lambda>n. n mod p \<noteq> 0) ns)"

definition first_primes :: "int list" where
  "first_primes = sieve [2..311]"

text \<open>\<open>c\<close> is the floor of \<open>2^32\<close> times the fractional part of the \<open>k\<close>-th root of \<open>p\<close>, whose integer part is \<open>q\<close>.\<close>

definition root_fraction :: "nat \<Rightarrow> int \<Rightarrow> u32 \<Rightarrow> bool" where
  "root_fraction k p c \<longleftrightarrow>
     list_ex (\<lambda>q. (q * 2 ^ 32 + uint c) ^ k \<le> p * 2 ^ (32 * k)
                \<and> p * 2 ^ (32 * k) < (q * 2 ^ 32 + uint c + 1) ^ k) [1..17]"

definition hash_words :: "regs \<Rightarrow> u32 list" where
  "hash_words r = (case r of (a, b, c, d, e, f, g, h) \<Rightarrow> [a, b, c, d, e, f, g, h])"

text \<open>
  C12. The tables of crypto.cc are those of the standard: kSha256Constants holds the first 32 bits of
  the fractional parts of the cube roots of the first 64 primes, the initial hash those of the square
  roots of the first eight primes.
\<close>
theorem sha256_constants:
  "length first_primes = 64
   \<and> list_all2 (root_fraction 3) first_primes kSha256Constants
   \<and> list_all2 (root_fraction 2) (take 8 first_primes) (hash_words initial_hash)"
  by code_simp

section \<open>Padding\<close>

definition pad_count :: "nat \<Rightarrow> nat" where
  "pad_count m = (if m \<le> 56 then 56 - m else 120 - m)"

lemma pad_count_step: "m < 64 \<Longrightarrow> m \<noteq> 56 \<Longrightarrow> pad_count m = Suc (pad_count (Suc m mod 64))"
  by (auto simp: pad_count_def mod_Suc)

lemma pad_zeros_spec: "pad_zeros bytes = bytes @ replicate (pad_count (length bytes mod 64)) 0"
proof (induction bytes rule: pad_zeros.induct)
  case (1 bytes)
  show ?case
  proof (cases "length bytes mod 64 = 56")
    case True
    then have "pad_zeros bytes = bytes" by (subst pad_zeros.simps) simp
    with True show ?thesis by (simp add: pad_count_def)
  next
    case False
    then have "pad_zeros bytes = pad_zeros (bytes @ [0])" by (subst pad_zeros.simps) simp
    also have "\<dots> = bytes @ 0 # replicate (pad_count (Suc (length bytes mod 64) mod 64)) 0"
      using "1.IH" [OF False] by (simp add: mod_Suc_eq)
    finally show ?thesis using pad_count_step [of "length bytes mod 64"] False by simp
  qed
qed

lemma pad_count_mod: "(n + pad_count (n mod 64)) mod 64 = 56"
proof -
  have lt: "n mod 64 < 64" by simp
  have "(n + pad_count (n mod 64)) mod 64 = (n mod 64 + pad_count (n mod 64)) mod 64"
    by (simp add: mod_add_left_eq)
  also have "\<dots> = 56" using lt by (auto simp: pad_count_def)
  finally show ?thesis .
qed

text \<open>The big-endian bytes of a 64-bit word.\<close>

definition be64 :: "u64 \<Rightarrow> u8 list" where
  "be64 n = map (\<lambda>i. ucast (drop_bit (i * 8) n)) (rev [0..<8])"

lemma ucast_mask8: "(ucast (x AND 0xff :: 'a::len word) :: u8) = ucast x"
proof -
  have m: "0xff = (mask 8 :: 'a word)" by (simp add: mask_eq_exp_minus_1)
  show ?thesis unfolding m by (rule bit_eqI) (auto simp: bit_simps dest: bit_imp_le_length)
qed

lemma push_length_spec:
  "push_length n i bytes = bytes @ map (\<lambda>j. ucast (drop_bit (j * 8) n)) (rev [0..<i])"
  by (induction n i bytes rule: push_length.induct) (simp_all add: ucast_mask8)

lemma length_be64 [simp]: "length (be64 n) = 8"
  by (simp add: be64_def)

lemma pad_message_form:
  "pad_message m = m @ 0x80 # replicate (pad_count (Suc (length m) mod 64)) 0
     @ be64 (of_nat (length m) * 8)"
  by (simp add: pad_message_def pad_zeros_spec push_length_spec be64_def)

lemma pad_message_length: "64 dvd length (pad_message m)"
proof -
  have "length (pad_message m) = (Suc (length m) + pad_count (Suc (length m) mod 64)) + 8"
    by (simp add: pad_message_form)
  moreover have "(Suc (length m) + pad_count (Suc (length m) mod 64) + 8) mod 64 = 0"
    using pad_count_mod [of "Suc (length m)"] mod_add_left_eq [of "Suc (length m) + pad_count (Suc (length m) mod 64)" 64 8]
    by simp
  ultimately show ?thesis by (simp add: mod_eq_0_iff_dvd del: add_Suc)
qed

section \<open>The reference\<close>

text \<open>
  FIPS 180-4: rotations are \<^const>\<open>word_rotr\<close>; \<open>W\<close> is the message schedule of a block, by
  recursion on the index; the hash value after a block is the old one plus the registers after 64
  rounds.
\<close>

definition ref_Sigma0 :: "u32 \<Rightarrow> u32" where
  "ref_Sigma0 x = word_rotr 2 x XOR word_rotr 13 x XOR word_rotr 22 x"

definition ref_Sigma1 :: "u32 \<Rightarrow> u32" where
  "ref_Sigma1 x = word_rotr 6 x XOR word_rotr 11 x XOR word_rotr 25 x"

definition ref_sigma0 :: "u32 \<Rightarrow> u32" where
  "ref_sigma0 x = word_rotr 7 x XOR word_rotr 18 x XOR drop_bit 3 x"

definition ref_sigma1 :: "u32 \<Rightarrow> u32" where
  "ref_sigma1 x = word_rotr 17 x XOR word_rotr 19 x XOR drop_bit 10 x"

definition ref_Ch :: "u32 \<Rightarrow> u32 \<Rightarrow> u32 \<Rightarrow> u32" where
  "ref_Ch x y z = (x AND y) XOR (NOT x AND z)"

definition ref_Maj :: "u32 \<Rightarrow> u32 \<Rightarrow> u32 \<Rightarrow> u32" where
  "ref_Maj x y z = (x AND y) XOR (x AND z) XOR (y AND z)"

fun ref_W :: "u32 list \<Rightarrow> nat \<Rightarrow> u32" where
  "ref_W M t =
     (if t < 16 then M ! t
      else ref_sigma1 (ref_W M (t - 2)) + ref_W M (t - 7)
           + ref_sigma0 (ref_W M (t - 15)) + ref_W M (t - 16))"

declare ref_W.simps [simp del]

definition ref_round :: "u32 list \<Rightarrow> nat \<Rightarrow> regs \<Rightarrow> regs" where
  "ref_round M t r =
     (case r of (a, b, c, d, e, f, g, h) \<Rightarrow>
        let T1 = h + ref_Sigma1 e + ref_Ch e f g + kSha256Constants ! t + ref_W M t;
            T2 = ref_Sigma0 a + ref_Maj a b c
        in (T1 + T2, a, b, c, d + T1, e, f, g))"

definition ref_block :: "u32 list \<Rightarrow> regs \<Rightarrow> regs" where
  "ref_block M H = add_regs H (fold (ref_round M) [0..<64] H)"

definition message_block :: "u8 list \<Rightarrow> nat \<Rightarrow> u32 list" where
  "message_block bytes i = map (\<lambda>j. word_at bytes (64 * i + 4 * j)) [0..<16]"

definition ref_sha256 :: "string \<Rightarrow> u8 list" where
  "ref_sha256 input =
     (let m = string_bytes input;
          bytes = m @ 0x80 # replicate (pad_count (Suc (length m) mod 64)) 0
                    @ be64 (of_nat (length m) * 8)
      in digest_bytes (fold (\<lambda>i. ref_block (message_block bytes i)) [0..<length bytes div 64] initial_hash))"

lemma RotateRight_rotr:
  assumes "0 < n" "n < 32"
  shows "RotateRight w n = word_rotr n w"
proof (rule bit_eqI)
  fix k assume "possible_bit TYPE(32 word) k"
  then have k: "k < 32" by simp
  have "(k + n) mod 32 = (if k + n < 32 then k + n else k + n - 32)"
    using k assms by (simp add: mod_if)
  moreover have "bit w j \<Longrightarrow> j < 32" for j using bit_imp_le_length [of w j] by simp
  ultimately show "bit (RotateRight w n) k = bit (word_rotr n w) k"
    using k assms
    by (auto simp: RotateRight_def bit_simps bit_word_rotr_iff add.commute) 
qed


lemmas rotations =
  RotateRight_rotr [of 2, simplified] RotateRight_rotr [of 13, simplified]
  RotateRight_rotr [of 22, simplified] RotateRight_rotr [of 6, simplified]
  RotateRight_rotr [of 11, simplified] RotateRight_rotr [of 25, simplified]
  RotateRight_rotr [of 7, simplified] RotateRight_rotr [of 18, simplified]
  RotateRight_rotr [of 17, simplified] RotateRight_rotr [of 19, simplified]

lemma length_load_words [simp]: "length (load_words bytes chunk i n words) = length words"
  by (induction bytes chunk i n words rule: load_words.induct) auto

lemma load_words_nth:
  "i + n \<le> length words \<Longrightarrow> t < length words \<Longrightarrow>
     load_words bytes chunk i n words ! t =
       (if i \<le> t \<and> t < i + n then word_at bytes (chunk + t * 4) else words ! t)"
  by (induction bytes chunk i n words rule: load_words.induct) (auto simp: nth_list_update not_less_eq_eq)

lemma extend_words_nth:
  "16 \<le> i \<Longrightarrow> i + n \<le> length words \<Longrightarrow> \<forall>t < i. words ! t = ref_W M t \<Longrightarrow>
     t < i + n \<Longrightarrow> extend_words i n words ! t = ref_W M t"
proof (induction i n words rule: extend_words.induct)
  case (2 i n words)
  let ?w = "words ! (i - 16) + (RotateRight (words ! (i - 15)) 7 XOR RotateRight (words ! (i - 15)) 18
      XOR drop_bit 3 (words ! (i - 15))) + words ! (i - 7) + (RotateRight (words ! (i - 2)) 17 XOR
      RotateRight (words ! (i - 2)) 19 XOR drop_bit 10 (words ! (i - 2)))"
  have "?w = ref_W M i"
    using "2.prems"(1,3)
    by (subst ref_W.simps) (simp add: rotations ref_sigma0_def ref_sigma1_def algebra_simps)
  then have "\<forall>t < Suc i. (words[i := ?w]) ! t = ref_W M t"
    using "2.prems" by (auto simp: nth_list_update less_Suc_eq)
  then show ?case using "2.IH" [OF refl refl] "2.prems" by (simp add: Let_def)
qed simp

lemma schedule_ref_W:
  assumes "t < 64"
  shows "schedule bytes (64 * i) ! t = ref_W (message_block bytes i) t"
proof -
  let ?w = "load_words bytes (64 * i) 0 16 (replicate 64 0)"
  have "\<forall>t < 16. ?w ! t = ref_W (message_block bytes i) t"
    by (subst ref_W.simps) (auto simp: load_words_nth message_block_def mult.commute)
  from extend_words_nth [OF _ _ this, of 48 t] assms show ?thesis
    by (simp add: schedule_def)
qed

lemma sha_rounds_ref:
  "i + n \<le> 64 \<Longrightarrow> sha_rounds (schedule bytes (64 * b)) i n r
     = fold (ref_round (message_block bytes b)) [i..<i + n] r"
proof (induction "schedule bytes (64 * b)" i n r rule: sha_rounds.induct)
  case (2 i n r)
  have "sha_round (kSha256Constants ! i) (schedule bytes (64 * b) ! i) r = ref_round (message_block bytes b) i r"
    using "2.prems" by (simp add: sha_round_def ref_round_def schedule_ref_W rotations
        ref_Sigma0_def ref_Sigma1_def ref_Ch_def ref_Maj_def split: prod.split)
  with 2 show ?case by (simp add: upt_conv_Cons del: upt_Suc)
qed simp

lemma hash_chunks_ref:
  "length bytes = 64 * n \<Longrightarrow> b \<le> n \<Longrightarrow>
     hash_chunks bytes (64 * b) r = fold (\<lambda>i. ref_block (message_block bytes i)) [b..<n] r"
proof (induction "n - b" arbitrary: b r)
  case 0
  then show ?case by (subst hash_chunks.simps) simp
next
  case (Suc k)
  then have b: "b < n" "k = n - Suc b" by auto
  have "hash_chunk bytes (64 * b) r = ref_block (message_block bytes b) r"
    using sha_rounds_ref [of 0 64] by (simp add: hash_chunk_def ref_block_def)
  moreover have "hash_chunks bytes (64 * b) r = hash_chunks bytes (64 * Suc b) (hash_chunk bytes (64 * b) r)"
    using b Suc.prems by (subst hash_chunks.simps) (simp add: add.commute)
  moreover have "[b..<n] = b # [Suc b..<n]" using b(1) by (rule upt_conv_Cons)
  ultimately show ?case using Suc.hyps(1) [OF b(2) Suc.prems(1)] b(1) by simp
qed

lemma digest_length: "length (sha256_digest s) = 32"
  by (simp add: sha256_digest_def digest_bytes_def word_bytes_def Let_def split: prod.split)

lemma sha256_ref: "sha256_digest input = ref_sha256 input"
proof -
  let ?bytes = "pad_message (string_bytes input)"
  from pad_message_length have "length ?bytes = 64 * (length ?bytes div 64)" by simp
  from hash_chunks_ref [OF this, of 0] show ?thesis
    unfolding sha256_digest_def ref_sha256_def by (simp add: Let_def pad_message_form)
qed


section \<open>Hexadecimal output\<close>

fun hex_val :: "char \<Rightarrow> nat" where
  "hex_val c = (let n = (of_char c :: nat) in if n < 58 then n - 48 else n - 87)"

fun of_hex :: "string \<Rightarrow> u8 list" where
  "of_hex (a # b # s) = of_nat (16 * hex_val a + hex_val b) # of_hex s"
| "of_hex s = []"

lemma hex_digit_cases: "n < 16 \<Longrightarrow> hex_val (hex_digit n) = n \<and> hex_digit n \<in> set ''0123456789abcdef''"
proof -
  have "\<forall>n \<in> set [0..<16]. hex_val (hex_digit n) = n \<and> hex_digit n \<in> set ''0123456789abcdef''"
    by code_simp
  then show "n < 16 \<Longrightarrow> ?thesis" by simp
qed

lemma unat_byte: "unat (b :: u8) < 256"
  using unsigned_less [of b] by simp

lemma of_hex_ToHex: "of_hex (ToHex bs) = bs"
proof (induction bs)
  case (Cons b bs)
  have "unat b div 16 < 16" "unat b mod 16 < 16" using unat_byte [of b] by auto
  then have "16 * hex_val (hex_digit (unat b div 16)) + hex_val (hex_digit (unat b mod 16)) = unat b"
    using hex_digit_cases by (simp del: hex_val.simps)
  with Cons show ?case by (simp add: ToHex_def hex_byte_def del: hex_val.simps)
qed (simp add: ToHex_def)

lemma ToHex_chars: "set (ToHex bs) \<subseteq> set ''0123456789abcdef'' \<and> length (ToHex bs) = 2 * length bs"
proof (induction bs)
  case (Cons b bs)
  have "unat b div 16 < 16" "unat b mod 16 < 16" using unat_byte [of b] by auto
  with Cons hex_digit_cases show ?case by (auto simp: ToHex_def hex_byte_def simp del: hex_val.simps)
qed (simp add: ToHex_def)

text \<open>
  crypto.hash with the algorithm sha256 returns the object {algorithm, hex} whose hex text has
  64 lower-case hexadecimal digits and reads back as the digest of the data; any other algorithm
  is refused with EUNSUPPORTED_ALGORITHM.
\<close>
theorem crypto_hash_result:
  "HashCallback v [JStr alg, JStr data] =
     (if alg = ''sha256'' then
        Return (JHost [(''algorithm'', V8String v ''sha256''),
                       (''hex'', V8String v (ToHex (ref_sha256 data)))] False)
      else Throw (CreateKodeError v ''EUNSUPPORTED_ALGORITHM''
             (''Unsupported hash algorithm '' @ [char_of (39::nat)] @ alg @ [char_of (39::nat)])
             ''kode:crypto.hash'' alg))
   \<and> length (ToHex (sha256_digest data)) = 64
   \<and> set (ToHex (sha256_digest data)) \<subseteq> set ''0123456789abcdef''
   \<and> of_hex (ToHex (sha256_digest data)) = ref_sha256 data"
  using sha256_ref [of data] digest_length [of data] ToHex_chars [of "sha256_digest data"]
  by (simp add: HashCallback_def ReadStringArg_def Let_def digest_length of_hex_ToHex)

end
