(* ===== verification/HttpServer.thy ===== *)
theory HttpServer
  imports Prelude
begin

text \<open>
  \<open>src/http/http_server.cc\<close>: the request handler as a function from the received bytes to the
  response bytes, and a connection as a state machine driven by libuv's callbacks (data, end of
  file, read error, completed write, closed handle). libuv is modelled by what it delivers: reads
  until the handle is closing, one completion per accepted write, the close callback last. What
  \<open>uv_write\<close> returns is an argument of the callback that calls it.
\<close>

section \<open>Requests and responses\<close>

record response =
  status :: int
  content_type :: string
  body :: string
  resp_headers :: "(string \<times> string) list"

definition default_response :: response where
  "default_response = \<lparr> status = 200, content_type = ''text/plain'', body = [], resp_headers = [] \<rparr>"

type_synonym handler = "string \<Rightarrow> string \<Rightarrow> string \<Rightarrow> response"

record server =
  running :: bool
  handler_fn :: "handler option"
  routes :: "string \<rightharpoonup> (string \<rightharpoonup> handler)"

definition new_server :: server where
  "new_server = \<lparr> running = False, handler_fn = None, routes = Map.empty \<rparr>"

definition set_handler :: "handler \<Rightarrow> server \<Rightarrow> server" where
  "set_handler h s = s\<lparr>handler_fn := Some h\<rparr>"

definition add_route :: "string \<Rightarrow> string \<Rightarrow> handler \<Rightarrow> server \<Rightarrow> server" where
  "add_route method path h s =
     s\<lparr>routes := (routes s)(method \<mapsto>
        (case routes s method of Some m \<Rightarrow> m | None \<Rightarrow> Map.empty)(path \<mapsto> h))\<rparr>"

text \<open>
  \<open>start\<close>: the results of \<open>uv_ip4_addr\<close>, \<open>uv_tcp_bind\<close> and \<open>uv_listen\<close> are arguments; \<open>stop\<close> reports
  whether it closes the listening handle.
\<close>

definition start :: "int \<Rightarrow> int \<Rightarrow> int \<Rightarrow> server \<Rightarrow> server \<times> bool" where
  "start addr_r bind_r listen_r s =
     (if running s then (s, True)
      else if addr_r \<noteq> 0 then (s, False)
      else if bind_r \<noteq> 0 then (s, False)
      else if listen_r \<noteq> 0 then (s, False)
      else (s\<lparr>running := True\<rparr>, True))"

definition stop :: "server \<Rightarrow> server \<times> bool" where
  "stop s = (if \<not> running s then (s, False) else (s\<lparr>running := False\<rparr>, True))"

abbreviation crlf :: string where "crlf \<equiv> [CHR 0x0D, CHR 0x0A]"

definition request_line :: "string \<Rightarrow> string \<times> string" where
  "request_line buffer =
     (case str_find '' '' buffer of
        None \<Rightarrow> (''GET'', ''/'')
      | Some sp1 \<Rightarrow>
          (substr buffer 0 sp1,
           (case str_find_from '' '' buffer (sp1 + 1) of
              None \<Rightarrow> ''/''
            | Some sp2 \<Rightarrow> substr buffer (sp1 + 1) (sp2 - sp1 - 1))))"

definition dispatch :: "server \<Rightarrow> string \<Rightarrow> string \<Rightarrow> string \<Rightarrow> response" where
  "dispatch s method path buffer =
     (let resp = (case routes s method of
                    None \<Rightarrow> default_response
                  | Some m \<Rightarrow> (case m path of None \<Rightarrow> default_response | Some h \<Rightarrow> h method path buffer))
      in if body resp = [] then
           (case handler_fn s of
              Some h \<Rightarrow> h method path buffer
            | None \<Rightarrow> resp\<lparr>status := 200, content_type := ''text/plain'', body := ''Hello from Kode HTTP''\<rparr>)
         else resp)"

definition status_text :: "int \<Rightarrow> string" where
  "status_text st = (if st = 404 then ''Not Found''
                     else if st = 500 then ''Internal Server Error'' else ''OK'')"

definition render_headers :: "(string \<times> string) list \<Rightarrow> string" where
  "render_headers hs = concat (map (\<lambda>(k, v). k @ '': '' @ v @ crlf) hs)"

definition render_head :: "response \<Rightarrow> string" where
  "render_head r =
     ''HTTP/1.1 '' @ int_to_dec (status r) @ '' '' @ status_text (status r) @ crlf
     @ ''Connection: close'' @ crlf
     @ ''Content-Type: '' @ content_type r @ crlf
     @ render_headers (resp_headers r)
     @ ''Content-Length: '' @ nat_to_dec (length (body r))"

definition render_response :: "response \<Rightarrow> string" where
  "render_response r = render_head r @ crlf @ crlf @ body r"

section \<open>Connections\<close>

text \<open>
  A connection and what libuv knows of its handle: the responses handed to \<open>uv_write\<close>, the writes
  whose completion is outstanding, how often \<open>uv_close\<close> was called, and whether the close callback
  has deleted it.
\<close>

record connection =
  buffer :: string
  responded :: bool
  written :: "string list"
  pending :: nat
  closes :: nat
  deleted :: bool

definition new_connection :: connection where
  "new_connection = \<lparr> buffer = [], responded = False, written = [], pending = 0, closes = 0,
                     deleted = False \<rparr>"

text \<open>
  \<open>handle_request\<close> ignores the value \<open>write_r\<close> that \<open>uv_write\<close> returns. libuv calls the completion
  callback only for a write it accepted, that is when the value is 0.
\<close>

definition handle_request :: "server \<Rightarrow> int \<Rightarrow> connection \<Rightarrow> connection" where
  "handle_request s write_r conn =
     (let (method, path) = request_line (buffer conn);
          resp = dispatch s method path (buffer conn)
      in conn\<lparr>responded := True, written := written conn @ [render_response resp],
              pending := (if write_r = 0 then pending conn + 1 else pending conn)\<rparr>)"

text \<open>\<open>read_cb\<close>: the bytes read, or none when \<open>nread\<close> is 0 or an error code (end of file included).\<close>

datatype read_result = Data string | Again | Failed

definition uv_close :: "connection \<Rightarrow> connection" where
  "uv_close conn = conn\<lparr>closes := closes conn + 1\<rparr>"

definition read_cb :: "server \<Rightarrow> int \<Rightarrow> read_result \<Rightarrow> connection \<Rightarrow> connection" where
  "read_cb s write_r r conn =
     (case r of
        Data bytes \<Rightarrow>
          let c = conn\<lparr>buffer := buffer conn @ bytes\<rparr>
          in if \<not> responded c \<and> str_contains (crlf @ crlf) (buffer c) then handle_request s write_r c else c
      | Again \<Rightarrow> conn
      | Failed \<Rightarrow> uv_close conn)"

definition after_write_cb :: "connection \<Rightarrow> connection" where
  "after_write_cb conn = uv_close (conn\<lparr>pending := pending conn - 1\<rparr>)"

definition on_client_closed :: "connection \<Rightarrow> connection" where
  "on_client_closed conn = conn\<lparr>deleted := True\<rparr>"

text \<open>\<open>on_new_connection\<close> for a result of \<open>uv_accept\<close>; a negative status makes no connection.\<close>

definition on_new_connection :: "int \<Rightarrow> int \<Rightarrow> connection option" where
  "on_new_connection st accept_r =
     (if st < 0 then None
      else if accept_r = 0 then Some new_connection else Some (uv_close new_connection))"

datatype conn_event = Read int read_result | Written | Closed

inductive conn_step :: "server \<Rightarrow> connection \<Rightarrow> conn_event \<Rightarrow> connection \<Rightarrow> bool"
  for s :: server where
  step_read: "\<not> deleted c \<Longrightarrow> closes c = 0 \<Longrightarrow> conn_step s c (Read w r) (read_cb s w r c)"
| step_written: "\<not> deleted c \<Longrightarrow> 0 < pending c \<Longrightarrow> conn_step s c Written (after_write_cb c)"
| step_closed: "\<not> deleted c \<Longrightarrow> 0 < closes c \<Longrightarrow> pending c = 0 \<Longrightarrow> conn_step s c Closed (on_client_closed c)"

inductive_simps conn_step_read: "conn_step s c (Read w r) t"
inductive_simps conn_step_written: "conn_step s c Written t"
inductive_simps conn_step_closed: "conn_step s c Closed t"

lemmas conn_simps = read_cb_def handle_request_def uv_close_def after_write_cb_def on_client_closed_def

section \<open>At most one response\<close>

definition request_bytes :: "conn_event list \<Rightarrow> string" where
  "request_bytes es = concat (map (\<lambda>e. case e of Read w (Data b) \<Rightarrow> b | _ \<Rightarrow> []) es)"

text \<open>
  The response of a connection is that of the received bytes at the moment the blank line arrived.
\<close>

definition response_to :: "server \<Rightarrow> string \<Rightarrow> string" where
  "response_to s buf =
     render_response (dispatch s (fst (request_line buf)) (snd (request_line buf)) buf)"

definition answered :: "server \<Rightarrow> connection \<Rightarrow> bool" where
  "answered s c \<longleftrightarrow>
     (\<exists>buf rest. buffer c = buf @ rest \<and> str_contains (crlf @ crlf) buf \<and> written c = [response_to s buf])"

definition conn_inv :: "server \<Rightarrow> connection \<Rightarrow> bool" where
  "conn_inv s c \<longleftrightarrow>
     (responded c \<longleftrightarrow> written c \<noteq> []) \<and> length (written c) \<le> 1 \<and> pending c \<le> length (written c)
     \<and> (responded c \<longleftrightarrow> str_contains (crlf @ crlf) (buffer c))
     \<and> (responded c \<longrightarrow> answered s c)"

lemma str_contains_append: "str_contains p s \<Longrightarrow> str_contains p (s @ t)"
  unfolding str_contains_iff by (metis append.assoc sublist_def)

lemma conn_inv_step: "conn_inv s c \<Longrightarrow> conn_step s c e d \<Longrightarrow> conn_inv s d"
proof (erule conn_step.cases)
  fix c' w r
  assume "conn_inv s c" "c = c'" "d = read_cb s w r c'" "closes c' = 0"
  then have inv: "conn_inv s c'" "closes c' = 0" by auto
  show "conn_inv s d"
  proof (cases r)
    case (Data b)
    let ?buf = "buffer c' @ b"
    consider "responded c'" | "\<not> responded c'" "\<not> str_contains (crlf @ crlf) ?buf"
      | "\<not> responded c'" "str_contains (crlf @ crlf) ?buf" by blast
    then show ?thesis
    proof cases
      case 1
      with inv obtain buf rest where "buffer c' = buf @ rest" "str_contains (crlf @ crlf) buf"
        "written c' = [response_to s buf]" by (auto simp: conn_inv_def answered_def)
      then have "answered s (c'\<lparr>buffer := ?buf\<rparr>)"
        unfolding answered_def by (intro exI [of _ buf] exI [of _ "rest @ b"]) simp
      with 1 inv Data \<open>d = _\<close> show ?thesis
        by (auto simp: conn_inv_def read_cb_def intro: str_contains_append)
    next
      case 2
      with inv Data \<open>d = _\<close> show ?thesis by (auto simp: conn_inv_def read_cb_def)
    next
      case 3
      have "d = c'\<lparr>buffer := ?buf, responded := True, written := written c' @ [response_to s ?buf],
          pending := (if w = 0 then pending c' + 1 else pending c')\<rparr>"
        using 3 Data \<open>d = _\<close> by (simp add: read_cb_def handle_request_def response_to_def split_def Let_def)
      with 3 inv show ?thesis by (auto simp: conn_inv_def answered_def)
    qed
  qed (use inv \<open>d = _\<close> in \<open>auto simp: conn_inv_def answered_def read_cb_def uv_close_def\<close>)
qed (auto simp: conn_inv_def answered_def conn_simps)

interpretation http_conn: invariant_system "conn_step s" "conn_inv s" for s
  by unfold_locales (rule conn_inv_step)

lemma conn_inv_new: "conn_inv s new_connection"
  by (simp add: conn_inv_def new_connection_def str_contains_def)

lemma conn_buffer_step: "conn_step s c e d \<Longrightarrow> buffer d = buffer c @ request_bytes [e]"
  by (erule conn_step.cases)
     (auto simp: request_bytes_def conn_simps Let_def split: read_result.split prod.split)

interpretation http_hist: history_system "conn_step s" "conn_inv s"
    "\<lambda>es c. buffer c = request_bytes es" for s
  by unfold_locales (auto simp: conn_inv_step conn_buffer_step request_bytes_def)

text \<open>
  C4. A connection writes at most one response, however its bytes arrive: it answers exactly when
  the blank line that ends the headers has been received, and the answer is computed from a prefix
  of the received bytes that contains that line; what is pipelined after it is ignored. This holds
  whether libuv accepts the write or not.
\<close>
theorem http_one_response:
  assumes "run (conn_step s) new_connection es c"
  shows "length (written c) \<le> 1
    \<and> (written c \<noteq> [] \<longleftrightarrow> str_contains (crlf @ crlf) (request_bytes es))
    \<and> (written c \<noteq> [] \<longrightarrow> (\<exists>buf rest. request_bytes es = buf @ rest
         \<and> str_contains (crlf @ crlf) buf \<and> written c = [response_to s buf]))"
proof -
  have inv: "conn_inv s c" using http_conn.inv_run [OF assms conn_inv_new] .
  have "buffer c = request_bytes ([] @ es)"
    using http_hist.hist_run [OF assms conn_inv_new, of "[]"] by (simp add: new_connection_def request_bytes_def)
  with inv show ?thesis by (auto simp: conn_inv_def answered_def)
qed

definition get_bytes :: string where
  "get_bytes = ''GET / HTTP/1.1'' @ crlf @ crlf"

theorem http_one_response_witness:
  "\<exists>c. run (conn_step new_server) new_connection [Read 0 (Data (take 5 get_bytes)), Read 0 (Data (drop 5 get_bytes))] c
     \<and> length (written c) \<le> 1 \<and> written c \<noteq> []"
proof -
  let ?es = "[Read 0 (Data (take 5 get_bytes)), Read 0 (Data (drop 5 get_bytes))]"
  let ?c1 = "read_cb new_server 0 (Data (take 5 get_bytes)) new_connection"
  let ?c = "read_cb new_server 0 (Data (drop 5 get_bytes)) ?c1"
  have "closes ?c1 = 0" "\<not> deleted ?c1" "closes new_connection = 0" "\<not> deleted new_connection" by code_simp+
  then have s1: "conn_step new_server new_connection (Read 0 (Data (take 5 get_bytes))) ?c1"
    and s2: "conn_step new_server ?c1 (Read 0 (Data (drop 5 get_bytes))) ?c"
    by (blast intro: step_read)+
  have r: "run (conn_step new_server) new_connection ?es ?c"
    by (rule run_Cons, rule s1, rule run_Cons, rule s2, rule run_Nil)
  have "request_bytes ?es = get_bytes" by code_simp
  moreover have "str_contains (crlf @ crlf) get_bytes" by code_simp
  ultimately show ?thesis using http_one_response [OF r] r by metis
qed

section \<open>Framing\<close>

text \<open>What a client does: cut at the first blank line, read the length from the last header.\<close>

definition split_response :: "string \<Rightarrow> (string \<times> string) option" where
  "split_response raw =
     (case str_find (crlf @ crlf) raw of
        None \<Rightarrow> None
      | Some i \<Rightarrow> Some (take i raw, drop (i + 4) raw))"

definition no_crlf :: "string \<Rightarrow> bool" where
  "no_crlf s \<longleftrightarrow> CHR 0x0D \<notin> set s \<and> CHR 0x0A \<notin> set s"

definition clean_response :: "response \<Rightarrow> bool" where
  "clean_response r \<longleftrightarrow> no_crlf (content_type r)
     \<and> list_all (\<lambda>(k, v). no_crlf k \<and> no_crlf v) (resp_headers r)"

lemma find_blank_line:
  assumes "no_crlf l" "t \<noteq> []" "hd t \<noteq> CHR 0x0D"
  shows "str_find (crlf @ crlf) (l @ crlf @ t) = map_option (\<lambda>i. i + length l + 2) (str_find (crlf @ crlf) t)"
  using assms
proof (induction l)
  case Nil
  then obtain c u where "t = c # u" "c \<noteq> CHR 0x0D" by (cases t) auto
  then show ?case by (cases "str_find (crlf @ crlf) t") auto
next
  case (Cons c l)
  then have "c \<noteq> CHR 0x0D" "str_find (crlf @ crlf) (l @ crlf @ t)
      = map_option (\<lambda>i. i + length l + 2) (str_find (crlf @ crlf) t)" by (auto simp: no_crlf_def)
  then show ?case by (cases "str_find (crlf @ crlf) t") auto
qed

fun join_lines :: "string list \<Rightarrow> string" where
  "join_lines [] = []"
| "join_lines [l] = l"
| "join_lines (l # ls) = l @ crlf @ join_lines ls"

lemma join_lines_Cons: "ls \<noteq> [] \<Longrightarrow> join_lines (l # ls) = l @ crlf @ join_lines ls"
  by (cases ls) auto

definition header_line :: "string \<Rightarrow> bool" where
  "header_line l \<longleftrightarrow> l \<noteq> [] \<and> no_crlf l"

lemma find_end_of_lines:
  "ls \<noteq> [] \<Longrightarrow> list_all header_line ls \<Longrightarrow>
     join_lines ls \<noteq> [] \<and> hd (join_lines ls) \<noteq> CHR 0x0D
     \<and> str_find (crlf @ crlf) (join_lines ls @ crlf @ crlf @ b) = Some (length (join_lines ls))"
proof (induction ls rule: join_lines.induct)
  case (2 l)
  then have l: "l \<noteq> []" "no_crlf l" by (auto simp: header_line_def)
  have "str_find (crlf @ crlf) (l @ crlf @ crlf @ b) = Some (length l)"
    using l(2) by (induction l) (auto simp: no_crlf_def)
  with l show ?case by (cases l) (auto simp: no_crlf_def)
next
  case (3 l l' ls)
  let ?t = "join_lines (l' # ls)"
  from 3 have l: "l \<noteq> []" "no_crlf l" and ih: "?t \<noteq> [] \<and> hd ?t \<noteq> CHR 0x0D
      \<and> str_find (crlf @ crlf) (?t @ crlf @ crlf @ b) = Some (length ?t)" by (auto simp: header_line_def)
  then have "?t @ crlf @ crlf @ b \<noteq> []" "hd (?t @ crlf @ crlf @ b) \<noteq> CHR 0x0D" by simp_all
  from find_blank_line [OF l(2) this] ih
  have "str_find (crlf @ crlf) (join_lines (l # l' # ls) @ crlf @ crlf @ b) = Some (length (join_lines (l # l' # ls)))"
    by simp
  moreover have "hd l \<noteq> CHR 0x0D" using l by (cases l) (auto simp: no_crlf_def)
  ultimately show ?case using l(1) by simp
qed simp

definition head_lines :: "response \<Rightarrow> string list" where
  "head_lines r =
     [''HTTP/1.1 '' @ int_to_dec (status r) @ '' '' @ status_text (status r),
      ''Connection: close'', ''Content-Type: '' @ content_type r]
     @ map (\<lambda>(k, v). k @ '': '' @ v) (resp_headers r)
     @ [''Content-Length: '' @ nat_to_dec (length (body r))]"

lemma join_headers:
  "join_lines (map (\<lambda>(k, v). k @ '': '' @ v) hs @ [l]) = render_headers hs @ l"
  by (induction hs) (auto simp: render_headers_def join_lines_Cons)

lemma join_head:
  "join_lines ([a, b, c] @ map (\<lambda>(k, v). k @ '': '' @ v) hs @ [l])
     = a @ crlf @ b @ crlf @ c @ crlf @ render_headers hs @ l"
  by (simp only: append_Cons append_Nil join_headers [symmetric])
     (simp only: join_lines_Cons list.distinct append_is_Nil_conv append_Cons append_Nil simp_thms append_assoc
        not_False_eq_True)

lemma render_head_lines: "render_head r = join_lines (head_lines r)"
  unfolding render_head_def head_lines_def join_head by (simp only: append_assoc)

lemma digits_no_crlf: "\<forall>c \<in> set s. is_digit c \<Longrightarrow> no_crlf s"
  by (auto simp: no_crlf_def is_digit_def)

lemma head_lines_ok:
  assumes "clean_response r"
  shows "list_all header_line (head_lines r)"
proof -
  have n: "no_crlf (nat_to_dec n)" for n using nat_to_dec_digits digits_no_crlf by blast
  then have i: "no_crlf (int_to_dec i)" for i by (auto simp: int_to_dec_def no_crlf_def)
  have "no_crlf (status_text i)" for i by (simp add: status_text_def no_crlf_def)
  with n i assms show ?thesis
    by (auto simp: head_lines_def header_line_def clean_response_def no_crlf_def list_all_iff)
qed

text \<open>
  C32. The response is framed: when the content type and the extra headers contain no line break,
  a client that cuts at the first blank line finds the head, which ends with the Content-Length of
  exactly the bytes that follow, and the body.
\<close>
theorem http_response_framing:
  assumes "clean_response r"
  shows "\<exists>h d. split_response (render_response r) = Some (h @ crlf @ ''Content-Length: '' @ d, body r)
    \<and> strtoll d = Some (int (length (body r)))"
proof -
  let ?d = "nat_to_dec (length (body r))"
  have "str_find (crlf @ crlf) (render_head r @ crlf @ crlf @ body r) = Some (length (render_head r))"
    using find_end_of_lines [OF _ head_lines_ok [OF assms], of "body r"]
    by (simp add: render_head_lines head_lines_def)
  then have "split_response (render_response r) = Some (render_head r, body r)"
    by (simp add: split_response_def render_response_def)
  moreover have "\<exists>h. render_head r = h @ crlf @ ''Content-Length: '' @ ?d"
  proof (cases "resp_headers r" rule: rev_cases)
    case Nil
    show ?thesis unfolding render_head_def Nil
      by (rule exI [of _ "''HTTP/1.1 '' @ int_to_dec (status r) @ '' '' @ status_text (status r) @ crlf
        @ ''Connection: close'' @ crlf @ ''Content-Type: '' @ content_type r"]) (simp add: render_headers_def)
  next
    case (snoc hs kv)
    show ?thesis unfolding render_head_def snoc
      by (rule exI [of _ "''HTTP/1.1 '' @ int_to_dec (status r) @ '' '' @ status_text (status r) @ crlf
        @ ''Connection: close'' @ crlf @ ''Content-Type: '' @ content_type r @ crlf
        @ render_headers hs @ fst kv @ '': '' @ snd kv"]) (simp add: render_headers_def split_def)
  qed
  moreover have "strtoll ?d = Some (int (length (body r)))"
    using strtoll_int_to_dec [of "[]" "int (length (body r))"] by (simp add: int_to_dec_def)
  ultimately show ?thesis by metis
qed

theorem http_response_framing_witness:
  "\<exists>h d. split_response (render_response (default_response\<lparr>body := ''hi'', resp_headers := [(''X'', ''y'')]\<rparr>))
       = Some (h @ crlf @ ''Content-Length: '' @ d, ''hi'') \<and> strtoll d = Some 2"
proof -
  have "clean_response (default_response\<lparr>body := ''hi'', resp_headers := [(''X'', ''y'')]\<rparr>)" by code_simp
  from http_response_framing [OF this] show ?thesis by simp
qed

section \<open>Requests\<close>

lemma request_line_parse:
  assumes "CHR '' '' \<notin> set m" "CHR '' '' \<notin> set p"
  shows "request_line (m @ '' '' @ p @ '' '' @ rest) = (m, p)"
proof -
  let ?b = "m @ '' '' @ p @ '' '' @ rest"
  have "str_find '' '' ?b = Some (length m)"
    using str_find_char_append [OF assms(1), of "p @ '' '' @ rest"] by simp
  moreover have "str_find_from '' '' ?b (length m + 1) = Some (length m + 1 + length p)"
    using str_find_char_append [OF assms(2), of rest] by (simp add: str_find_from_def)
  ultimately show ?thesis by (simp add: request_line_def substr_def)
qed

text \<open>
  A request is routed by its first line: a handler registered with add\_route answers the
  requests of its method and path, unless it returns an empty body, which is then replaced by the
  fallback handler's response (or by the default text).
\<close>
theorem http_routing:
  assumes "CHR '' '' \<notin> set m" "CHR '' '' \<notin> set p"
  shows "let buf = m @ '' '' @ p @ '' '' @ rest; r = h m p buf in
    response_to (add_route m p h s) buf = render_response
      (if body r \<noteq> [] then r
       else case handler_fn s of
              Some f \<Rightarrow> f m p buf
            | None \<Rightarrow> r\<lparr>status := 200, content_type := ''text/plain'', body := ''Hello from Kode HTTP''\<rparr>)"
  using request_line_parse [OF assms]
  by (cases "handler_fn s") (simp_all add: response_to_def dispatch_def add_route_def Let_def)

definition empty_ok :: handler where
  "empty_ok m p b = default_response\<lparr>status := 404\<rparr>"

theorem http_routing_witness:
  "response_to (add_route ''GET'' ''/x'' empty_ok new_server) (''GET'' @ '' '' @ ''/x'' @ '' '' @ ''HTTP/1.1'')
     = render_response (default_response\<lparr>body := ''Hello from Kode HTTP''\<rparr>)"
  using http_routing [of "''GET''" "''/x''"  "''HTTP/1.1''" empty_ok new_server]
  by (simp add: empty_ok_def default_response_def new_server_def)

text \<open>
  A client that sends a request and closes its side before the response is written makes the
  server close the connection's handle twice: read\_cb closes it at the end of file, and the
  completion of the outstanding write closes it again.
\<close>
theorem http_double_close:
  "\<exists>c. run (conn_step s) new_connection [Read 0 (Data get_bytes), Read 0 Failed, Written] c \<and> closes c = 2"
proof -
  let ?c1 = "read_cb s 0 (Data get_bytes) new_connection"
  let ?c2 = "read_cb s 0 Failed ?c1"
  have "str_contains (crlf @ crlf) get_bytes" by code_simp
  then have c1: "closes ?c1 = 0" "\<not> deleted ?c1" "pending ?c1 = 1"
    by (simp_all add: read_cb_def handle_request_def new_connection_def split_def Let_def)
  then have c2: "closes ?c2 = 1" "\<not> deleted ?c2" "pending ?c2 = 1" by (simp_all add: read_cb_def [of s 0 Failed] uv_close_def)
  have s1: "conn_step s new_connection (Read 0 (Data get_bytes)) ?c1"
    by (rule step_read) (simp_all add: new_connection_def)
  have s2: "conn_step s ?c1 (Read 0 Failed) ?c2" using c1 by (intro step_read)
  have s3: "conn_step s ?c2 Written (after_write_cb ?c2)" using c2 by (intro step_written) simp_all
  have "closes (after_write_cb ?c2) = 2" using c2 by (simp add: after_write_cb_def uv_close_def)
  moreover have "run (conn_step s) new_connection [Read 0 (Data get_bytes), Read 0 Failed, Written] (after_write_cb ?c2)"
    by (rule run_Cons, rule s1, rule run_Cons, rule s2, rule run_Cons, rule s3, rule run_Nil)
  ultimately show ?thesis by (intro exI [of _ "after_write_cb ?c2"] conjI)
qed

section \<open>The end of a connection\<close>

definition closing_event :: "conn_event \<Rightarrow> bool" where
  "closing_event e = (case e of Read w r \<Rightarrow> False | _ \<Rightarrow> True)"

definition closing_backlog :: "connection \<Rightarrow> nat" where
  "closing_backlog c = (if deleted c then 0 else pending c + (if 0 < pending c \<or> 0 < closes c then 1 else 0))"

lemma conn_closing_decreases: "conn_step s c e d \<Longrightarrow> closing_event e \<Longrightarrow> closing_backlog d < closing_backlog c"
  by (erule conn_step.cases) (auto simp: closing_event_def closing_backlog_def conn_simps)

lemma conn_closing_enabled:
  assumes "0 < closing_backlog c"
  shows "\<exists>e d. closing_event e \<and> conn_step s c e d"
proof (cases "0 < pending c")
  case True
  then have "conn_step s c Written (after_write_cb c)"
    using assms by (intro step_written) (auto simp: closing_backlog_def split: if_splits)
  then show ?thesis by (intro exI conjI) (simp_all add: closing_event_def)
next
  case False
  then have "conn_step s c Closed (on_client_closed c)"
    using assms by (intro step_closed) (auto simp: closing_backlog_def split: if_splits)
  then show ?thesis by (intro exI conjI) (simp_all add: closing_event_def)
qed

interpretation http_close: draining_system "conn_step s" "conn_inv s" closing_event closing_backlog for s
  by unfold_locales (erule (1) conn_closing_decreases, rule conn_closing_enabled)

lemma closing_kept:
  "conn_step s c e d \<Longrightarrow> closing_event e \<Longrightarrow> 0 < pending c \<or> 0 < closes c \<Longrightarrow>
     (0 < pending d \<or> 0 < closes d) \<and> written d = written c"
  by (erule conn_step.cases) (auto simp: closing_event_def conn_simps)

lemma closing_kept_run:
  "run (conn_step s) c es d \<Longrightarrow> \<forall>e \<in> set es. closing_event e \<Longrightarrow> 0 < pending c \<or> 0 < closes c \<Longrightarrow>
     (0 < pending d \<or> 0 < closes d) \<and> written d = written c"
proof (induction rule: run.induct)
  case (run_Cons c e d es t)
  have "(0 < pending d \<or> 0 < closes d) \<and> written d = written c"
    by (rule closing_kept [OF run_Cons.hyps(1)]) (use run_Cons.prems in auto)
  with run_Cons show ?case by auto
qed simp



text \<open>
  A connection whose write libuv refuses is never closed by the server: the value of \<open>uv_write\<close> is
  dropped, no completion arrives, and later bytes are only appended to the buffer. Only an end of
  file or a read error ends it.
\<close>

lemma refused_step:
  assumes "conn_step s c e d" "responded c" "pending c = 0" "closes c = 0" "\<And>w. e \<noteq> Read w Failed"
  shows "responded d \<and> pending d = 0 \<and> closes d = 0 \<and> written d = written c"
  using assms
  by (cases rule: conn_step.cases) (auto simp: read_cb_def Let_def split: read_result.splits)

theorem http_refused_write_stays_open:
  assumes "run (conn_step s) (read_cb s w (Data get_bytes) new_connection) es c" "w \<noteq> 0"
    "\<And>v. Read v Failed \<notin> set es"
  shows "responded c \<and> pending c = 0 \<and> closes c = 0"
proof -
  have "run (conn_step s) d es c \<Longrightarrow> responded d \<Longrightarrow> pending d = 0 \<Longrightarrow> closes d = 0 \<Longrightarrow>
    \<forall>v. Read v Failed \<notin> set es \<Longrightarrow> responded c \<and> pending c = 0 \<and> closes c = 0" for d
  proof (induction rule: run.induct)
    case (run_Cons a e b fs t)
    have "responded b \<and> pending b = 0 \<and> closes b = 0 \<and> written b = written a"
      by (rule refused_step [OF run_Cons.hyps(1)]) (use run_Cons.prems in auto)
    with run_Cons show ?case by auto
  qed auto
  moreover have "str_contains (crlf @ crlf) get_bytes" by code_simp
  then have "responded (read_cb s w (Data get_bytes) new_connection)"
    "pending (read_cb s w (Data get_bytes) new_connection) = 0"
    "closes (read_cb s w (Data get_bytes) new_connection) = 0"
    using assms(2) by (simp_all add: read_cb_def handle_request_def new_connection_def split_def Let_def)
  ultimately show ?thesis using assms(1,3) by blast
qed

end
