(* ===== verification/FileSystem.thy ===== *)
theory FileSystem
  imports FsPath
begin

text \<open>
  \<open>src/filesystem/modern_fs.cc\<close>. The operating system's file system is a parameter: a record of
  the calls that the sources make, over a type of disks. \<open>ModernFS\<close> runs each
  operation on libuv's thread pool and calls back on the main thread; the operations in flight are
  the states of a step relation. The only exceptions that \<open>workCallback\<close> can see come from failed
  allocations, which are not modelled: the queries of \<open>std::filesystem\<close> catch their own.
\<close>

section \<open>The operating system\<close>

datatype file_type = Regular | Directory | Other

text \<open>
  Reading a whole file (\<^term>\<open>None\<close> when it cannot be opened); opening for writing, which creates or
  truncates; writing and closing, with the state of the stream afterwards; the queries of
  \<open>std::filesystem\<close>, which may throw with a message; creating directories, errors ignored.
\<close>

record 'fs os =
  open_in :: "'fs \<Rightarrow> string \<Rightarrow> string option"
  open_out :: "'fs \<Rightarrow> string \<Rightarrow> 'fs option"
  write_close :: "'fs \<Rightarrow> string \<Rightarrow> string \<Rightarrow> 'fs \<times> bool"
  path_exists :: "'fs \<Rightarrow> string \<Rightarrow> string + bool"
  path_status :: "'fs \<Rightarrow> string \<Rightarrow> string + file_type"
  file_size :: "'fs \<Rightarrow> string \<Rightarrow> string + nat"
  last_write :: "'fs \<Rightarrow> string \<Rightarrow> string + int"
  create_directories :: "'fs \<Rightarrow> string \<Rightarrow> 'fs"

section \<open>ModernFS\<close>

record file_info =
  info_path :: string
  info_size :: nat
  isFile :: bool
  isDirectory :: bool
  mimeType :: string
  lastModified :: int

text \<open>Empty path: there is no information; the other fields are not read then.\<close>

definition no_info :: file_info where
  "no_info = \<lparr> info_path = [], info_size = 0, isFile = False, isDirectory = False, mimeType = [],
              lastModified = 0 \<rparr>"

record read_result =
  rd_content :: string
  rd_info :: file_info
  rd_encoding :: string
  rd_success :: bool
  rd_error :: string

record write_result =
  wr_bytes :: nat
  wr_info :: file_info
  wr_success :: bool
  wr_error :: string

definition failed_read :: "string \<Rightarrow> read_result" where
  "failed_read e = \<lparr> rd_content = [], rd_info = no_info, rd_encoding = [], rd_success = False, rd_error = e \<rparr>"

definition failed_write :: "string \<Rightarrow> write_result" where
  "failed_write e = \<lparr> wr_bytes = 0, wr_info = no_info, wr_success = False, wr_error = e \<rparr>"

definition detectMimeType :: "string \<Rightarrow> string" where
  "detectMimeType p =
     (let ext = map tolower (case str_rfind_char (CHR ''.'') p of None \<Rightarrow> p | Some i \<Rightarrow> drop (i + 1) p) in
      if ext = ''js'' then ''application/javascript''
      else if ext = ''json'' then ''application/json''
      else if ext = ''html'' \<or> ext = ''htm'' then ''text/html''
      else if ext = ''css'' then ''text/css''
      else if ext = ''txt'' then ''text/plain''
      else if ext = ''md'' then ''text/markdown''
      else if ext = ''png'' then ''image/png''
      else if ext = ''jpg'' \<or> ext = ''jpeg'' then ''image/jpeg''
      else if ext = ''gif'' then ''image/gif''
      else ''application/octet-stream'')"

definition createFileInfo :: "'fs os \<Rightarrow> 'fs \<Rightarrow> string \<Rightarrow> file_info" where
  "createFileInfo os fs p =
     (case path_exists os fs p of
        Inl e \<Rightarrow> no_info
      | Inr False \<Rightarrow> no_info
      | Inr True \<Rightarrow>
         (case path_status os fs p of
            Inl e \<Rightarrow> no_info
          | Inr ty \<Rightarrow>
             (case (if ty = Regular then file_size os fs p else Inr 0) of
                Inl e \<Rightarrow> no_info
              | Inr sz \<Rightarrow>
                 (case last_write os fs p of
                    Inl e \<Rightarrow> no_info
                  | Inr t \<Rightarrow>
                      \<lparr> info_path = p, info_size = sz, isFile = (ty = Regular),
                        isDirectory = (ty = Directory),
                        mimeType = (if ty = Regular then detectMimeType p else ''inode/directory''),
                        lastModified = t \<rparr>))))"

definition ensureDirectoryExists :: "'fs os \<Rightarrow> 'fs \<Rightarrow> string \<Rightarrow> 'fs" where
  "ensureDirectoryExists os fs p =
     (let dirPath = parent_path p in
      if dirPath \<noteq> [] \<and> path_exists os fs dirPath = Inr False
      then create_directories os fs dirPath else fs)"

definition bool_json :: "bool \<Rightarrow> string" where
  "bool_json b = (if b then ''true'' else ''false'')"

definition toJSON :: "file_info \<Rightarrow> string" where
  "toJSON i = (let q = [CHR 0x22] in
     ''{'' @ q @ ''path'' @ q @ '':'' @ q @ info_path i @ q @ '',''
     @ q @ ''size'' @ q @ '':'' @ nat_to_dec (info_size i) @ '',''
     @ q @ ''isFile'' @ q @ '':'' @ bool_json (isFile i) @ '',''
     @ q @ ''isDirectory'' @ q @ '':'' @ bool_json (isDirectory i) @ '',''
     @ q @ ''mimeType'' @ q @ '':'' @ q @ mimeType i @ q @ '',''
     @ q @ ''lastModified'' @ q @ '':'' @ int_to_dec (lastModified i) @ ''}'')"

datatype operation = OpRead | OpWrite | OpInfo

record async_op =
  operation :: operation
  op_path :: string
  op_content :: string
  op_encoding :: string
  createParents :: bool
  readResult :: read_result
  writeResult :: write_result
  fileInfo :: file_info
  op_error :: string

definition new_op :: "operation \<Rightarrow> string \<Rightarrow> async_op" where
  "new_op k p = \<lparr> operation = k, op_path = p, op_content = [], op_encoding = [], createParents = False,
     readResult = failed_read [], writeResult = failed_write [], fileInfo = no_info, op_error = [] \<rparr>"

definition read_op :: "string \<Rightarrow> async_op" where
  "read_op p = (new_op OpRead p)\<lparr>op_encoding := ''auto''\<rparr>"

definition write_op :: "string \<Rightarrow> string \<Rightarrow> bool \<Rightarrow> async_op" where
  "write_op p c cp = (new_op OpWrite p)\<lparr>op_content := c, op_encoding := ''utf8'', createParents := cp\<rparr>"

definition info_op :: "string \<Rightarrow> async_op" where
  "info_op p = new_op OpInfo p"

definition work_read :: "'fs os \<Rightarrow> 'fs \<Rightarrow> async_op \<Rightarrow> async_op" where
  "work_read os fs op =
     (case open_in os fs (op_path op) of
        None \<Rightarrow> op\<lparr>readResult := (readResult op)\<lparr>rd_success := False,
                                              rd_error := ''Cannot open file: '' @ op_path op\<rparr>\<rparr>
      | Some c \<Rightarrow> op\<lparr>readResult := (readResult op)\<lparr>rd_content := c,
                    rd_info := createFileInfo os fs (op_path op), rd_encoding := op_encoding op,
                    rd_success := True\<rparr>\<rparr>)"

definition work_write :: "'fs os \<Rightarrow> 'fs \<Rightarrow> async_op \<Rightarrow> 'fs \<times> async_op" where
  "work_write os fs op =
     (let p = op_path op;
          fs0 = (if createParents op then ensureDirectoryExists os fs p else fs)
      in case open_out os fs0 p of
           None \<Rightarrow> (fs0, op\<lparr>writeResult := (writeResult op)\<lparr>wr_success := False,
                          wr_error := ''Cannot create file: '' @ p\<rparr>\<rparr>)
         | Some fs1 \<Rightarrow>
            (case write_close os fs1 p (op_content op) of
               (fs2, good) \<Rightarrow>
                 if good then
                   (fs2, op\<lparr>writeResult := (writeResult op)\<lparr>wr_bytes := length (op_content op),
                            wr_info := createFileInfo os fs2 p, wr_success := True\<rparr>\<rparr>)
                 else
                   (fs2, op\<lparr>writeResult := (writeResult op)\<lparr>wr_success := False,
                            wr_error := ''Failed to write to file: '' @ p\<rparr>\<rparr>)))"

definition work_info :: "'fs os \<Rightarrow> 'fs \<Rightarrow> async_op \<Rightarrow> async_op" where
  "work_info os fs op =
     (let i = createFileInfo os fs (op_path op); op1 = op\<lparr>fileInfo := i\<rparr>
      in if info_path i = [] then op1\<lparr>op_error := ''File not found: '' @ op_path op\<rparr> else op1)"

definition workCallback :: "'fs os \<Rightarrow> 'fs \<Rightarrow> async_op \<Rightarrow> 'fs \<times> async_op" where
  "workCallback os fs op =
     (case operation op of
        OpRead \<Rightarrow> (fs, work_read os fs op)
      | OpWrite \<Rightarrow> work_write os fs op
      | OpInfo \<Rightarrow> (fs, work_info os fs op))"

text \<open>What the callback of an operation receives.\<close>

datatype fs_reply =
    ReadReply read_result
  | WriteReply write_result
  | InfoReply file_info string

fun error_reply :: "operation \<Rightarrow> string \<Rightarrow> fs_reply" where
  "error_reply OpRead e = ReadReply (failed_read e)"
| "error_reply OpWrite e = WriteReply (failed_write e)"
| "error_reply OpInfo e = InfoReply no_info e"

fun result_reply :: "operation \<Rightarrow> async_op \<Rightarrow> fs_reply" where
  "result_reply OpRead op = ReadReply (readResult op)"
| "result_reply OpWrite op = WriteReply (writeResult op)"
| "result_reply OpInfo op = InfoReply (fileInfo op) (op_error op)"

text \<open>\<open>uv_strerror\<close> is the argument \<open>strerror\<close>.\<close>

definition afterWorkCallback :: "(int \<Rightarrow> string) \<Rightarrow> int \<Rightarrow> async_op \<Rightarrow> fs_reply" where
  "afterWorkCallback strerror status op =
     (if status < 0 then error_reply (operation op) (''libuv error: '' @ strerror status)
      else result_reply (operation op) op)"

text \<open>
  \<open>readFile\<close>, \<open>writeFile\<close> and \<open>getFileInfo\<close>: the result of \<open>uv_queue_work\<close> decides between an
  immediate error reply and a queued operation. Each first prints a line.
\<close>

definition announce :: "async_op \<Rightarrow> string" where
  "announce op =
     (case operation op of
        OpRead \<Rightarrow> ''[ModernFS] Reading file: '' @ op_path op @ '' (encoding: '' @ op_encoding op @ '')''
      | OpWrite \<Rightarrow> ''[ModernFS] Writing file: '' @ op_path op @ '' ('' @ nat_to_dec (length (op_content op)) @ '' chars)''
      | OpInfo \<Rightarrow> ''[ModernFS] Getting file info: '' @ op_path op)"

fun queue_error :: "operation \<Rightarrow> string" where
  "queue_error OpRead = ''Failed to queue file operation: ''"
| "queue_error OpWrite = ''Failed to queue write operation: ''"
| "queue_error OpInfo = ''Failed to queue info operation: ''"

definition submit :: "(int \<Rightarrow> string) \<Rightarrow> int \<Rightarrow> async_op \<Rightarrow> fs_reply option" where
  "submit strerror uvResult op =
     (if uvResult < 0 then Some (error_reply (operation op) (queue_error (operation op) @ strerror uvResult))
      else None)"

definition exists_reply :: "fs_reply \<Rightarrow> bool" where
  "exists_reply r = (case r of InfoReply i e \<Rightarrow> e = [] | _ \<Rightarrow> False)"

section \<open>Operations in flight\<close>

record 'fs mfs =
  disk :: 'fs
  queued :: "(nat \<times> async_op) list"
  finished :: "(nat \<times> async_op) list"
  replies :: "(nat \<times> fs_reply) list"
  next_id :: nat
  printed :: "string list"

text \<open>
  A completion with a negative status is that of an operation whose work never ran: libuv gives it
  to cancelled requests. The relation also allows it after the work.
\<close>

datatype mfs_event = Submit async_op int | Work nat | After nat int

inductive mfs_step :: "'fs os \<Rightarrow> (int \<Rightarrow> string) \<Rightarrow> 'fs mfs \<Rightarrow> mfs_event \<Rightarrow> 'fs mfs \<Rightarrow> bool"
  for os :: "'fs os" and strerror :: "int \<Rightarrow> string" where
  submit_fail: "submit strerror r op = Some reply \<Longrightarrow>
    mfs_step os strerror m (Submit op r)
      (m\<lparr>replies := replies m @ [(next_id m, reply)], next_id := next_id m + 1,
         printed := printed m @ [announce op]\<rparr>)"
| submit_ok: "submit strerror r op = None \<Longrightarrow>
    mfs_step os strerror m (Submit op r)
      (m\<lparr>queued := queued m @ [(next_id m, op)], next_id := next_id m + 1,
         printed := printed m @ [announce op]\<rparr>)"
| work: "queued m = xs @ (i, op) # ys \<Longrightarrow> workCallback os (disk m) op = (fs', op') \<Longrightarrow>
    mfs_step os strerror m (Work i)
      (m\<lparr>disk := fs', queued := xs @ ys, finished := finished m @ [(i, op')]\<rparr>)"
| after: "finished m = xs @ (i, op) # ys \<Longrightarrow>
    mfs_step os strerror m (After i st)
      (m\<lparr>finished := xs @ ys, replies := replies m @ [(i, afterWorkCallback strerror st op)]\<rparr>)"
| cancelled: "queued m = xs @ (i, op) # ys \<Longrightarrow> st < 0 \<Longrightarrow>
    mfs_step os strerror m (After i st)
      (m\<lparr>queued := xs @ ys, replies := replies m @ [(i, afterWorkCallback strerror st op)]\<rparr>)"

definition ids :: "(nat \<times> 'a) list \<Rightarrow> nat multiset" where
  "ids xs = mset (map fst xs)"

definition mfs_inv :: "'fs mfs \<Rightarrow> bool" where
  "mfs_inv m \<longleftrightarrow> ids (queued m) + ids (finished m) + ids (replies m) = mset [0..<next_id m]"

lemma mfs_inv_step: "mfs_inv m \<Longrightarrow> mfs_step os strerror m e m' \<Longrightarrow> mfs_inv m'"
  by (erule mfs_step.cases) (auto simp: mfs_inv_def ids_def)

interpretation mfs_sys: invariant_system "mfs_step os strerror" mfs_inv for os strerror
  by unfold_locales (rule mfs_inv_step)

definition mfs_init :: "'fs \<Rightarrow> 'fs mfs" where
  "mfs_init fs = \<lparr> disk = fs, queued = [], finished = [], replies = [], next_id = 0, printed = [] \<rparr>"

lemma mset_replies_distinct: "mset (map fst xs) = mset [0..<n] \<Longrightarrow> distinct (map fst xs) \<and> set (map fst xs) = {..<n}"
  by (metis atLeast_upt distinct_upt mset_eq_imp_distinct_iff mset_eq_setD)


section \<open>Writing and reading back\<close>

text \<open>
  What the code relies on: a regular file that was opened, written and closed without an error
  exists, holds exactly the written bytes, and its size and time can be queried.
\<close>

definition os_laws :: "'fs os \<Rightarrow> bool" where
  "os_laws os \<longleftrightarrow>
     (\<forall>fs p fs1 c fs2. open_out os fs p = Some fs1 \<longrightarrow> write_close os fs1 p c = (fs2, True) \<longrightarrow>
        path_status os fs2 p = Inr Regular \<longrightarrow>
        open_in os fs2 p = Some c \<and> path_exists os fs2 p = Inr True
        \<and> file_size os fs2 p = Inr (length c) \<and> (\<exists>t. last_write os fs2 p = Inr t))"

lemma work_write_success:
  assumes "workCallback os fs (write_op p c cp) = (fs', op')" "wr_success (writeResult op')"
  shows "\<exists>fs0 fs1. open_out os fs0 p = Some fs1 \<and> write_close os fs1 p c = (fs', True)
    \<and> wr_bytes (writeResult op') = length c \<and> wr_info (writeResult op') = createFileInfo os fs' p"
  using assms
  by (auto simp: workCallback_def write_op_def new_op_def work_write_def failed_write_def Let_def
      split: option.splits prod.splits if_splits, blast+)

lemma write_read_back:
  assumes "os_laws os" "workCallback os fs (write_op p c cp) = (fs', wop)"
    "wr_success (writeResult wop)" "path_status os fs' p = Inr Regular"
  shows "\<exists>rop. workCallback os fs' (read_op p) = (fs', rop) \<and> rd_success (readResult rop)
    \<and> rd_content (readResult rop) = c \<and> info_path (rd_info (readResult rop)) = p
    \<and> info_size (rd_info (readResult rop)) = length c
    \<and> wr_info (writeResult wop) = rd_info (readResult rop) \<and> wr_bytes (writeResult wop) = length c"
proof -
  obtain fs0 fs1 where w: "open_out os fs0 p = Some fs1" "write_close os fs1 p c = (fs', True)"
    "wr_bytes (writeResult wop) = length c" "wr_info (writeResult wop) = createFileInfo os fs' p"
    using work_write_success [OF assms(2,3)] by blast
  then obtain t where "open_in os fs' p = Some c" "path_exists os fs' p = Inr True"
    "file_size os fs' p = Inr (length c)" "last_write os fs' p = Inr t"
    using assms(1,4) unfolding os_laws_def by blast
  then show ?thesis using w assms(4)
    by (simp add: workCallback_def read_op_def new_op_def work_read_def createFileInfo_def)
qed

text \<open>
  A successful write to a regular file is read back: a later read on the same disk succeeds
  with exactly the written content, and the metadata of both results gives its size in bytes, which
  is also the reported number of bytes written.
\<close>
theorem fs_write_read_back:
  assumes "os_laws os" "workCallback os fs (write_op p c cp) = (fs', wop)"
    "wr_success (writeResult wop)" "path_status os fs' p = Inr Regular"
  shows "\<exists>rop. workCallback os fs' (read_op p) = (fs', rop) \<and> rd_success (readResult rop)
    \<and> rd_content (readResult rop) = c \<and> info_path (rd_info (readResult rop)) = p
    \<and> info_size (rd_info (readResult rop)) = length c
    \<and> wr_info (writeResult wop) = rd_info (readResult rop) \<and> wr_bytes (writeResult wop) = length c"
  by (rule write_read_back [OF assms])

text \<open>A file system in memory: regular files only.\<close>

definition mem_os :: "(string \<rightharpoonup> string) os" where
  "mem_os = \<lparr> open_in = (\<lambda>fs p. fs p), open_out = (\<lambda>fs p. Some (fs(p \<mapsto> []))),
     write_close = (\<lambda>fs p c. (fs(p \<mapsto> c), True)),
     path_exists = (\<lambda>fs p. Inr (fs p \<noteq> None)),
     path_status = (\<lambda>fs p. Inr (if fs p \<noteq> None then Regular else Other)),
     file_size = (\<lambda>fs p. case fs p of Some c \<Rightarrow> Inr (length c) | None \<Rightarrow> Inl ''no such file''),
     last_write = (\<lambda>fs p. Inr 0), create_directories = (\<lambda>fs p. fs) \<rparr>"

lemma mem_os_laws: "os_laws mem_os"
  by (auto simp: os_laws_def mem_os_def)

theorem fs_write_read_back_witness:
  "\<exists>rop. workCallback mem_os (Map.empty(''a.txt'' \<mapsto> ''hi'')) (read_op ''a.txt'')
       = (Map.empty(''a.txt'' \<mapsto> ''hi''), rop)
     \<and> rd_content (readResult rop) = ''hi'' \<and> info_size (rd_info (readResult rop)) = 2"
proof -
  obtain wop where w: "workCallback mem_os Map.empty (write_op ''a.txt'' ''hi'' False)
      = (Map.empty(''a.txt'' \<mapsto> ''hi''), wop)" "wr_success (writeResult wop)"
    by (simp add: workCallback_def write_op_def new_op_def work_write_def mem_os_def Let_def)
  moreover have "path_status mem_os (Map.empty(''a.txt'' \<mapsto> ''hi'')) ''a.txt'' = Inr Regular"
    by (simp add: mem_os_def)
  ultimately show ?thesis using fs_write_read_back [OF mem_os_laws w] by fastforce
qed


end
