(* ===== verification/FsModule.thy ===== *)
theory FsModule
  imports V8Helpers FileSystem
begin

text \<open>
  \<open>src/v8/builtins/fs.cc\<close>: the callbacks of the \<open>kode:fs\<close> module. A call throws, returns a promise
  that is already settled, or starts an operation of \<open>ModernFS\<close> whose reply settles the promise
  (for \<open>fs.readFile\<close>: is passed to the script's function).
\<close>

section \<open>Requests\<close>

record fs_req =
  req_operation :: string
  req_path :: string

datatype fs_start =
    StartThrow jsval
  | StartSettled promise
  | StartOp async_op fs_req
  | StartCallback async_op jsval

definition FileKind :: "file_info \<Rightarrow> string" where
  "FileKind info = (if isFile info then ''file'' else if isDirectory info then ''directory'' else ''other'')"

definition CreateInfoValue :: "v8 \<Rightarrow> file_info \<Rightarrow> jsval" where
  "CreateInfoValue v info =
     (if info_path info = [] then JNull
      else JHost
        [(''path'', V8String v (info_path info)), (''kind'', V8String v (FileKind info)),
         (''size'', JNum (Fin (of_nat (info_size info)))), (''mimeType'', V8String v (mimeType info)),
         (''lastModified'', JNum (Fin (of_int (lastModified info))))] False)"

definition GetStringOption :: "v8 \<Rightarrow> jsval \<Rightarrow> string \<Rightarrow> string option" where
  "GetStringOption v opts key =
     (if \<not> IsObject opts then None
      else (case Get v opts key of
              Some (JStr s) \<Rightarrow> Some s
            | _ \<Rightarrow> None))"

definition GetSignalReasonIfAborted :: "v8 \<Rightarrow> jsval \<Rightarrow> jsval option" where
  "GetSignalReasonIfAborted v opts =
     (if \<not> IsObject opts then None
      else (case Get v opts ''signal'' of
              None \<Rightarrow> None
            | Some signal \<Rightarrow>
                if \<not> IsObject signal then None
                else (case Get v signal ''aborted'' of
                        None \<Rightarrow> None
                      | Some a \<Rightarrow>
                          if \<not> BooleanValue a then None
                          else Some (case Get v signal ''reason'' of
                                       None \<Rightarrow> CreateKodeError v ''ECANCELED'' ''Operation cancelled'' ''Kode.timeout'' []
                                     | Some r \<Rightarrow>
                                         if IsUndefined r
                                         then CreateKodeError v ''ECANCELED'' ''Operation cancelled'' ''Kode.timeout'' []
                                         else r))))"

fun string_of :: "jsval \<Rightarrow> string" where
  "string_of (JStr s) = s"
| "string_of v = []"

section \<open>The callbacks\<close>

definition FSReadFileCallback :: "v8 \<Rightarrow> jsval list \<Rightarrow> fs_start" where
  "FSReadFileCallback v args =
     (if length args < 2 \<or> \<not> IsString (args ! 0) \<or> \<not> IsFunction (args ! 1)
      then StartThrow (V8String v ''Invalid arguments'')
      else StartCallback (read_op (c_str (string_of (args ! 0)))) (args ! 1))"

definition FSReadTextCallback :: "v8 \<Rightarrow> jsval list \<Rightarrow> fs_start" where
  "FSReadTextCallback v args =
     (if length args < 1 \<or> \<not> IsString (args ! 0)
      then StartThrow (V8String v ''readText requires a path string'')
      else (let path = string_of (args ! 0)
            in StartOp (read_op path) \<lparr> req_operation = ''fs.readText'', req_path = path \<rparr>))"

definition quoted_text :: string where
  "quoted_text = [CHR 0x22] @ ''text'' @ [CHR 0x22]"

definition FSReadCallback :: "v8 \<Rightarrow> jsval list \<Rightarrow> fs_start" where
  "FSReadCallback v args =
     (if length args < 1 \<or> \<not> IsString (args ! 0)
      then StartThrow (V8String v ''fs.read requires a path string'')
      else if 2 \<le> length args \<and> \<not> IsObject (args ! 1)
      then StartThrow (V8String v ''fs.read options must be an object'')
      else
        (let as = (if 2 \<le> length args
                   then (case GetStringOption v (args ! 1) ''as'' of Some s \<Rightarrow> s | None \<Rightarrow> ''text'')
                   else ''text'');
             path = string_of (args ! 0)
         in if as \<noteq> ''text'' then StartThrow (V8String v (''fs.read only supports { as: '' @ quoted_text @ '' }''))
            else (case (if 2 \<le> length args then GetSignalReasonIfAborted v (args ! 1) else None) of
                    Some reason \<Rightarrow> StartSettled (RejectPromise Pending reason)
                  | None \<Rightarrow> StartOp (read_op path) \<lparr> req_operation = ''fs.read'', req_path = path \<rparr>)))"

definition FSWriteCallback :: "v8 \<Rightarrow> jsval list \<Rightarrow> fs_start" where
  "FSWriteCallback v args =
     (if length args < 2 \<or> \<not> IsString (args ! 0) \<or> \<not> IsString (args ! 1)
      then StartThrow (V8String v ''fs.write requires path and data strings'')
      else if 3 \<le> length args \<and> \<not> IsObject (args ! 2)
      then StartThrow (V8String v ''fs.write options must be an object'')
      else
        (let create = (if 3 \<le> length args
                       then (case GetStringOption v (args ! 2) ''create'' of Some s \<Rightarrow> s | None \<Rightarrow> ''none'')
                       else ''none'');
             path = string_of (args ! 0); data = string_of (args ! 1)
         in if create \<noteq> ''none'' \<and> create \<noteq> ''parents''
            then StartThrow (V8String v (''fs.write create must be '' @ [CHR 0x22] @ ''none'' @ [CHR 0x22]
                   @ '' or '' @ [CHR 0x22] @ ''parents'' @ [CHR 0x22]))
            else (case (if 3 \<le> length args then GetSignalReasonIfAborted v (args ! 2) else None) of
                    Some reason \<Rightarrow> StartSettled (RejectPromise Pending reason)
                  | None \<Rightarrow> StartOp (write_op path data (create = ''parents''))
                             \<lparr> req_operation = ''fs.write'', req_path = path \<rparr>)))"

definition FSInfoCallback :: "v8 \<Rightarrow> jsval list \<Rightarrow> fs_start" where
  "FSInfoCallback v args =
     (if length args < 1 \<or> \<not> IsString (args ! 0)
      then StartThrow (V8String v ''fs.info requires a path string'')
      else (let path = string_of (args ! 0)
            in StartOp (info_op path) \<lparr> req_operation = ''fs.info'', req_path = path \<rparr>))"

section \<open>The completions\<close>

text \<open>The arguments that \<open>fs.readFile\<close> passes to the script's function.\<close>

definition readFile_args :: "v8 \<Rightarrow> read_result \<Rightarrow> jsval list" where
  "readFile_args v r =
     (if rd_success r then [JNull, V8String v (rd_content r)]
      else [V8String v (rd_error r), JNull])"

definition settle_readText :: "v8 \<Rightarrow> fs_req \<Rightarrow> read_result \<Rightarrow> promise \<Rightarrow> promise" where
  "settle_readText v req r p =
     (if rd_success r then ResolvePromise p (V8String v (rd_content r))
      else RejectPromise p
             (CreateKodeError v ''ENOENT'' (rd_error r) (req_operation req) (req_path req)))"

definition settle_read :: "v8 \<Rightarrow> fs_req \<Rightarrow> read_result \<Rightarrow> promise \<Rightarrow> promise" where
  "settle_read v req r p =
     (if rd_success r then ResolvePromise p
        (SetProp (SetProp (JHost [] False) ''text'' (V8String v (rd_content r)))
           ''info'' (CreateInfoValue v (rd_info r)))
      else RejectPromise p
             (CreateKodeError v ''ENOENT'' (rd_error r) (req_operation req) (req_path req)))"

definition settle_write :: "v8 \<Rightarrow> fs_req \<Rightarrow> write_result \<Rightarrow> promise \<Rightarrow> promise" where
  "settle_write v req r p =
     (if wr_success r then ResolvePromise p
        (SetProp (SetProp (JHost [] False) ''bytesWritten'' (JNum (Fin (of_nat (wr_bytes r)))))
           ''info'' (CreateInfoValue v (wr_info r)))
      else RejectPromise p
             (CreateKodeError v ''ENOENT'' (wr_error r) (req_operation req) (req_path req)))"

definition settle_info :: "v8 \<Rightarrow> fs_req \<Rightarrow> file_info \<Rightarrow> string \<Rightarrow> promise \<Rightarrow> promise" where
  "settle_info v req info errorText p =
     (if errorText \<noteq> [] \<and> info_path info = [] \<and> \<not> prefix ''File not found:'' errorText
      then RejectPromise p (CreateKodeError v ''EIO'' errorText (req_operation req) (req_path req))
      else ResolvePromise p (CreateInfoValue v info))"

definition CreateFsModule :: jsval where
  "CreateFsModule = JHost
     [(''readFile'', JFun ''FSReadFileCallback''), (''readText'', JFun ''FSReadTextCallback''),
      (''read'', JFun ''FSReadCallback''), (''write'', JFun ''FSWriteCallback''),
      (''info'', JFun ''FSInfoCallback'')] False"

section \<open>A call and its completion\<close>

text \<open>
  A call that libuv queues and completes without an error of its own: the disk afterwards and the
  promise that the call returned, once settled.
\<close>

definition settle :: "v8 \<Rightarrow> fs_req \<Rightarrow> fs_reply \<Rightarrow> promise \<Rightarrow> promise" where
  "settle v req reply p =
     (case reply of
        ReadReply r \<Rightarrow> if req_operation req = ''fs.readText'' then settle_readText v req r p else settle_read v req r p
      | WriteReply r \<Rightarrow> settle_write v req r p
      | InfoReply i e \<Rightarrow> settle_info v req i e p)"

definition complete :: "v8 \<Rightarrow> 'fs os \<Rightarrow> 'fs \<Rightarrow> fs_start \<Rightarrow> ('fs \<times> promise) option" where
  "complete v os fs st =
     (case st of
        StartOp op req \<Rightarrow>
         (case workCallback os fs op of
            (fs', op') \<Rightarrow> Some (fs', settle v req (afterWorkCallback (\<lambda>i. []) 0 op') Pending))
      | StartSettled p \<Rightarrow> Some (fs, p)
      | _ \<Rightarrow> None)"

lemma char_of_nul: "char_of (0::nat) = CHR 0x00"
  by (simp add: char_of_def)

lemma c_str_id: "CHR 0x00 \<notin> set s \<Longrightarrow> c_str s = s"
  unfolding c_str_def char_of_nul by (auto simp: takeWhile_eq_all_conv)

lemma operation_work: "workCallback os fs op = (fs', op') \<Longrightarrow> operation op' = operation op"
  by (auto simp: workCallback_def work_read_def work_write_def work_info_def Let_def
      split: operation.splits option.splits prod.splits if_splits)

text \<open>
  An aborted signal stops fs.read and fs.write before they reach the file system: the returned
  promise is already rejected with the reason of the signal, and the disk is unchanged.
\<close>
theorem fs_abort_before_io:
  assumes "GetSignalReasonIfAborted v opts = Some reason" "IsObject opts"
    "GetStringOption v opts ''as'' = None" "GetStringOption v opts ''create'' = None"
  shows "complete v os fs (FSReadCallback v [JStr p, opts]) = Some (fs, Rejected reason)
    \<and> complete v os fs (FSWriteCallback v [JStr p, JStr data, opts]) = Some (fs, Rejected reason)"
  using assms by (simp add: FSReadCallback_def FSWriteCallback_def complete_def)

definition aborted_opts :: jsval where
  "aborted_opts = JHost [(''signal'', JHost [(''aborted'', JBool True), (''reason'', JStr ''late'')] False)] False"

theorem fs_abort_before_io_witness:
  "complete plain_v8 mem_os Map.empty (FSWriteCallback plain_v8 [JStr ''f'', JStr ''x'', aborted_opts])
     = Some (Map.empty, Rejected (JStr ''late''))"
  using fs_abort_before_io [of plain_v8 aborted_opts "JStr ''late''" mem_os Map.empty "''f''" "''x''"]
  by (simp add: aborted_opts_def GetSignalReasonIfAborted_def GetStringOption_def)

text \<open>
  fs.read and fs.readText on every outcome: a file that can be opened resolves with its text
  (and, for fs.read, its metadata), a file that cannot be opened rejects with code ENOENT, the
  operation and the path; neither changes the disk.
\<close>
theorem fs_read_outcome:
  "complete v os fs (FSReadTextCallback v [JStr p]) = Some (fs,
     case open_in os fs p of
       Some c \<Rightarrow> Fulfilled (V8String v c)
     | None \<Rightarrow> Rejected (CreateKodeError v ''ENOENT'' (''Cannot open file: '' @ p) ''fs.readText'' p))
   \<and> complete v os fs (FSReadCallback v [JStr p]) = Some (fs,
     case open_in os fs p of
       Some c \<Rightarrow> Fulfilled (JHost [(''text'', V8String v c), (''info'', CreateInfoValue v (createFileInfo os fs p))] False)
     | None \<Rightarrow> Rejected (CreateKodeError v ''ENOENT'' (''Cannot open file: '' @ p) ''fs.read'' p))"
  by (simp add: complete_def FSReadTextCallback_def FSReadCallback_def read_op_def new_op_def workCallback_def
      work_read_def afterWorkCallback_def settle_def settle_readText_def settle_read_def Let_def
      split: option.split)

text \<open>
  fs.info never rejects for a path that does not exist: it resolves with null, or with the
  metadata of the path.
\<close>
theorem fs_info_missing_is_null:
  "complete v os fs (FSInfoCallback v [JStr p])
     = Some (fs, Fulfilled (CreateInfoValue v (createFileInfo os fs p)))
   \<and> (path_exists os fs p = Inr False \<longrightarrow>
        complete v os fs (FSInfoCallback v [JStr p]) = Some (fs, Fulfilled JNull))"
  by (simp add: complete_def FSInfoCallback_def info_op_def new_op_def workCallback_def work_info_def
      afterWorkCallback_def settle_def settle_info_def createFileInfo_def CreateInfoValue_def no_info_def Let_def)

theorem fs_info_missing_is_null_witness:
  "complete plain_v8 mem_os Map.empty (FSInfoCallback plain_v8 [JStr ''nope'']) = Some (Map.empty, Fulfilled JNull)"
proof -
  have "path_exists mem_os Map.empty ''nope'' = Inr False" by (simp add: mem_os_def)
  with fs_info_missing_is_null [of plain_v8 mem_os Map.empty "''nope''"] show ?thesis by blast
qed

definition text_of :: "promise \<Rightarrow> jsval option" where
  "text_of p = (case p of Fulfilled (JHost props f) \<Rightarrow> map_of props ''text'' | _ \<Rightarrow> None)"

text \<open>
  C21. What fs.write stores, fs.read returns: when the write resolves on a regular file, a following
  fs.read resolves with the written text, provided the text has no NUL character and V8 decodes its
  UTF-8 unchanged.
\<close>
theorem fs_module_write_read:
  assumes "os_laws os"
    "complete v os fs (FSWriteCallback v [JStr p, JStr data]) = Some (fs', Fulfilled w)"
    "path_status os fs' p = Inr Regular" "CHR 0x00 \<notin> set data" "utf8 v data = data"
  shows "\<exists>r. complete v os fs' (FSReadCallback v [JStr p]) = Some (fs', r) \<and> text_of r = Some (JStr data)"
proof -
  obtain op where op: "workCallback os fs (write_op p data False) = (fs', op)"
    "settle_write v \<lparr> req_operation = ''fs.write'', req_path = p \<rparr> (writeResult op) Pending = Fulfilled w"
    using assms(2) operation_work [of os fs "write_op p data False"]
    by (auto simp: complete_def FSWriteCallback_def afterWorkCallback_def settle_def write_op_def new_op_def
        split: prod.splits)
  then have "wr_success (writeResult op)" by (auto simp: settle_write_def split: if_splits)
  from write_read_back [OF assms(1) op(1) this assms(3)]
  obtain c where "open_in os fs' p = Some c" "c = data"
    by (auto simp: workCallback_def read_op_def new_op_def work_read_def failed_read_def split: option.splits)
  then show ?thesis using assms(4,5) c_str_id [of data]
    by (simp add: complete_def FSReadCallback_def read_op_def new_op_def workCallback_def work_read_def
        afterWorkCallback_def settle_def settle_read_def text_of_def V8String_def)
qed

theorem fs_module_write_read_witness:
  "\<exists>r. complete plain_v8 mem_os (Map.empty(''f'' \<mapsto> ''hi'')) (FSReadCallback plain_v8 [JStr ''f''])
     = Some (Map.empty(''f'' \<mapsto> ''hi''), r) \<and> text_of r = Some (JStr ''hi'')"
proof (rule fs_module_write_read [OF mem_os_laws])
  show "complete plain_v8 mem_os Map.empty (FSWriteCallback plain_v8 [JStr ''f'', JStr ''hi''])
    = Some (Map.empty(''f'' \<mapsto> ''hi''), Fulfilled (JHost [(''bytesWritten'', JNum (Fin 2)),
        (''info'', CreateInfoValue plain_v8 (createFileInfo mem_os (Map.empty(''f'' \<mapsto> ''hi'')) ''f''))] False))"
    by (simp add: complete_def FSWriteCallback_def write_op_def new_op_def workCallback_def work_write_def
        mem_os_def afterWorkCallback_def settle_def settle_write_def Let_def)
qed (simp_all add: mem_os_def plain_v8_def)

text \<open>
  fs.read loses what follows a NUL character: the value is built from a C string, so a file
  with the bytes of a, NUL and b resolves with the text a, while its metadata says three bytes.
\<close>
theorem fs_read_truncates_at_nul:
  "open_in os fs p = Some (''a'' @ [CHR 0x00] @ ''b'') \<Longrightarrow> utf8 v ''a'' = ''a'' \<Longrightarrow>
     \<exists>r. complete v os fs (FSReadCallback v [JStr p]) = Some (fs, r) \<and> text_of r = Some (JStr ''a'')"
  by (simp add: complete_def FSReadCallback_def read_op_def new_op_def workCallback_def work_read_def
      afterWorkCallback_def settle_def settle_read_def text_of_def V8String_def c_str_def char_of_nul)

theorem fs_read_truncates_at_nul_witness:
  "\<exists>r. complete plain_v8 mem_os (Map.empty(''f'' \<mapsto> (''a'' @ [CHR 0x00] @ ''b'')))
         (FSReadCallback plain_v8 [JStr ''f''])
       = Some (Map.empty(''f'' \<mapsto> (''a'' @ [CHR 0x00] @ ''b'')), r) \<and> text_of r = Some (JStr ''a'')"
  by (rule fs_read_truncates_at_nul) (simp_all add: mem_os_def plain_v8_def)

end
