(* ===== verification/FsCalls.thy ===== *)
theory FsCalls
  imports FsModule
begin

text \<open>
  The callbacks of \<open>src/v8/builtins/fs.cc\<close> above the thread pool of \<open>src/filesystem/modern_fs.cc\<close>: calls of
  the fs module in any number and order, their operations in flight, and the callbacks that answer
  them. Every promise settles once, with the answer of its own operation, and all of them do when
  the thread pool works off what it was given.
\<close>

section \<open>Calls in flight\<close>

text \<open>
  A call that starts an operation leaves a request behind, the
  \<open>PromiseReq\<close> with the promise that the call returned or the \<open>AsyncReq\<close> with the script's function, and
  the callback that answers the operation settles the promise or calls the function, and then
  deletes the request. \<open>issued\<close> has the request of every operation, \<open>live_reqs\<close> the ones that are not deleted,
  \<open>invoked\<close> the calls of script functions; \<open>misuse\<close> is set by a callback that finds its request deleted.
\<close>

datatype fs_request = PromiseReq fs_req | AsyncReq jsval

record 'fs fs_calls =
  pool :: "'fs mfs"
  issued :: "fs_request list"
  live_reqs :: "nat set"
  promises :: "nat \<Rightarrow> promise"
  invoked :: "(nat \<times> jsval \<times> jsval list) list"
  misuse :: bool

fun start_request :: "fs_start \<Rightarrow> (async_op \<times> fs_request) option" where
  "start_request (StartOp op req) = Some (op, PromiseReq req)"
| "start_request (StartCallback op f) = Some (op, AsyncReq f)"
| "start_request st = None"

definition callback_args :: "v8 \<Rightarrow> fs_reply \<Rightarrow> jsval list" where
  "callback_args v reply = (case reply of ReadReply r \<Rightarrow> readFile_args v r | _ \<Rightarrow> [])"

definition answer :: "v8 \<Rightarrow> nat \<Rightarrow> fs_reply \<Rightarrow> 'fs fs_calls \<Rightarrow> 'fs fs_calls" where
  "answer v i reply m =
     (if i \<notin> live_reqs m then m\<lparr>misuse := True\<rparr>
      else (case issued m ! i of
              PromiseReq req \<Rightarrow> m\<lparr>promises := (promises m)(i := settle v req reply (promises m i)),
                                 live_reqs := live_reqs m - {i}\<rparr>
            | AsyncReq f \<Rightarrow> m\<lparr>invoked := invoked m @ [(i, f, callback_args v reply)],
                              live_reqs := live_reqs m - {i}\<rparr>))"

definition register :: "fs_request \<Rightarrow> 'fs fs_calls \<Rightarrow> 'fs fs_calls" where
  "register req m = m\<lparr>issued := issued m @ [req], live_reqs := insert (length (issued m)) (live_reqs m),
     promises := (promises m)(length (issued m) := Pending)\<rparr>"

datatype fs_event = Call fs_start int | PoolWork nat | Completed nat int

text \<open>
  A call whose submission fails is answered before it returns; the callbacks of the others run from
  \<open>afterWorkCallback\<close>.
\<close>

inductive fs_step :: "v8 \<Rightarrow> 'fs os \<Rightarrow> (int \<Rightarrow> string) \<Rightarrow> 'fs fs_calls \<Rightarrow> fs_event \<Rightarrow> 'fs fs_calls \<Rightarrow> bool"
  for v :: v8 and os :: "'fs os" and strerror :: "int \<Rightarrow> string" where
  call_none: "start_request st = None \<Longrightarrow> fs_step v os strerror m (Call st r) m"
| call_queued: "start_request st = Some (op, req) \<Longrightarrow> mfs_step os strerror (pool m) (Submit op r) p \<Longrightarrow>
    replies p = replies (pool m) \<Longrightarrow>
    fs_step v os strerror m (Call st r) (register req (m\<lparr>pool := p\<rparr>))"
| call_failed: "start_request st = Some (op, req) \<Longrightarrow> mfs_step os strerror (pool m) (Submit op r) p \<Longrightarrow>
    replies p = replies (pool m) @ [(i, reply)] \<Longrightarrow>
    fs_step v os strerror m (Call st r) (answer v i reply (register req (m\<lparr>pool := p\<rparr>)))"
| pool_work: "mfs_step os strerror (pool m) (Work i) p \<Longrightarrow>
    fs_step v os strerror m (PoolWork i) (m\<lparr>pool := p\<rparr>)"
| completed: "mfs_step os strerror (pool m) (After i st) p \<Longrightarrow> replies p = replies (pool m) @ [(i, reply)] \<Longrightarrow>
    fs_step v os strerror m (Completed i st) (answer v i reply (m\<lparr>pool := p\<rparr>))"

definition fs_calls_init :: "'fs \<Rightarrow> 'fs fs_calls" where
  "fs_calls_init fs = \<lparr> pool = mfs_init fs, issued = [], live_reqs = {}, promises = (\<lambda>i. Pending),
     invoked = [], misuse = False \<rparr>"

subsection \<open>Every request is answered once\<close>

definition in_flight :: "'fs mfs \<Rightarrow> nat set" where
  "in_flight p = set (map fst (queued p)) \<union> set (map fst (finished p))"

definition settled_as :: "v8 \<Rightarrow> 'fs fs_calls \<Rightarrow> nat \<Rightarrow> bool" where
  "settled_as v m i \<longleftrightarrow> (\<exists>reply. (i, reply) \<in> set (replies (pool m)) \<and>
     (case issued m ! i of
        PromiseReq req \<Rightarrow> promises m i = settle v req reply Pending
      | AsyncReq f \<Rightarrow> filter (\<lambda>c. fst c = i) (invoked m) = [(i, f, callback_args v reply)]))"

definition untouched :: "'fs fs_calls \<Rightarrow> nat \<Rightarrow> bool" where
  "untouched m i \<longleftrightarrow> promises m i = Pending \<and> i \<notin> fst ` set (invoked m)"

definition fs_inv :: "v8 \<Rightarrow> 'fs fs_calls \<Rightarrow> bool" where
  "fs_inv v m \<longleftrightarrow> mfs_inv (pool m) \<and> next_id (pool m) = length (issued m)
     \<and> live_reqs m = in_flight (pool m) \<and> \<not> misuse m
     \<and> (\<forall>i \<in> live_reqs m. untouched m i)
     \<and> (\<forall>i \<ge> length (issued m). i \<notin> fst ` set (invoked m))
     \<and> (\<forall>i < length (issued m). i \<notin> live_reqs m \<longrightarrow> settled_as v m i)"


lemma pool_ids:
  assumes "mfs_inv p"
  shows "distinct (map fst (queued p) @ map fst (finished p) @ map fst (replies p))"
    "set (map fst (queued p) @ map fst (finished p) @ map fst (replies p)) = {..<next_id p}"
proof -
  have "mset (map fst (queued p) @ map fst (finished p) @ map fst (replies p)) = mset [0..<next_id p]"
    using assms by (simp add: mfs_inv_def ids_def add.assoc)
  then show "distinct (map fst (queued p) @ map fst (finished p) @ map fst (replies p))"
    "set (map fst (queued p) @ map fst (finished p) @ map fst (replies p)) = {..<next_id p}"
    by (metis distinct_upt mset_eq_imp_distinct_iff, metis atLeast_upt mset_eq_setD)
qed

lemma in_flight_less: "mfs_inv p \<Longrightarrow> i \<in> in_flight p \<Longrightarrow> i < next_id p"
  using pool_ids(2) [of p] by (auto simp: in_flight_def)

lemma pool_submit:
  assumes "mfs_step os strerror p (Submit op r) q"
  shows "next_id q = Suc (next_id p) \<and>
    (replies q = replies p \<and> in_flight q = insert (next_id p) (in_flight p)
     \<or> (\<exists>reply. replies q = replies p @ [(next_id p, reply)] \<and> in_flight q = in_flight p))"
  using assms by (cases rule: mfs_step.cases) (auto simp: in_flight_def)

lemma pool_work_keeps:
  assumes "mfs_step os strerror p (Work i) q"
  shows "next_id q = next_id p \<and> replies q = replies p \<and> in_flight q = in_flight p"
  using assms by (cases rule: mfs_step.cases) (auto simp: in_flight_def)

lemma pool_after:
  assumes "mfs_step os strerror p (After i st) q" "mfs_inv p"
  shows "next_id q = next_id p \<and> i \<in> in_flight p \<and> in_flight q = in_flight p - {i}
    \<and> (\<exists>reply. replies q = replies p @ [(i, reply)])"
  using assms(1) pool_ids(1) [OF assms(2)]
  by (cases rule: mfs_step.cases) (auto simp: in_flight_def)

text \<open>Answering request \<open>i\<close>, the only one whose operation is no longer in flight.\<close>

lemma answer_keeps [simp]:
  "pool (answer v i reply m) = pool m" "issued (answer v i reply m) = issued m"
  by (auto simp: answer_def split: fs_request.split)

lemma answer_live:
  "i \<in> live_reqs m \<Longrightarrow> live_reqs (answer v i reply m) = live_reqs m - {i} \<and> misuse (answer v i reply m) = misuse m"
  by (auto simp: answer_def split: fs_request.split)

lemma answer_other:
  "j \<noteq> i \<Longrightarrow> promises (answer v i reply m) j = promises m j
    \<and> filter (\<lambda>c. fst c = j) (invoked (answer v i reply m)) = filter (\<lambda>c. fst c = j) (invoked m)
    \<and> (j \<in> fst ` set (invoked (answer v i reply m)) \<longleftrightarrow> j \<in> fst ` set (invoked m))"
  by (auto simp: answer_def split: fs_request.split)

lemma answer_settles:
  assumes "i \<in> live_reqs m" "untouched m i" "(i, reply) \<in> set (replies (pool m))"
  shows "settled_as v (answer v i reply m) i"
proof -
  have "filter (\<lambda>c. fst c = i) (invoked m) = []"
    using assms(2) by (auto simp: untouched_def filter_empty_conv)
  with assms show ?thesis
    by (auto simp: settled_as_def answer_def untouched_def split: fs_request.split)
qed

lemma fs_inv_answer:
  assumes "mfs_inv (pool m)" "next_id (pool m) = length (issued m)" "i < length (issued m)"
    "live_reqs m = insert i (in_flight (pool m))" "i \<notin> in_flight (pool m)" "\<not> misuse m"
    "(i, reply) \<in> set (replies (pool m))" "\<forall>j \<in> live_reqs m. untouched m j"
    "\<forall>j \<ge> length (issued m). j \<notin> fst ` set (invoked m)"
    "\<forall>j < length (issued m). j \<notin> live_reqs m \<longrightarrow> settled_as v m j"
  shows "fs_inv v (answer v i reply m)"
proof -
  let ?m = "answer v i reply m"
  have i: "i \<in> live_reqs m" using assms(4) by simp
  have other: "untouched ?m j \<longleftrightarrow> untouched m j" "settled_as v ?m j \<longleftrightarrow> settled_as v m j" if "j \<noteq> i" for j
    using answer_other [OF that, of v reply m] by (simp_all add: untouched_def settled_as_def split: fs_request.split)
  have "settled_as v ?m i" using answer_settles [OF i _ assms(7)] assms(8) i by blast
  then have "settled_as v ?m j" if "j < length (issued m)" "j \<notin> live_reqs ?m" for j
    using that other(2) [of j] assms(10) answer_live [OF i, of v reply] by (cases "j = i") auto
  moreover have "untouched ?m j" if "j \<in> live_reqs ?m" for j
    using that other(1) [of j] assms(8) answer_live [OF i, of v reply] by auto
  moreover have "j \<notin> fst ` set (invoked ?m)" if "length (issued m) \<le> j" for j
    using that assms(3,9) answer_other [of j i v reply m] by auto
  ultimately show ?thesis
    using assms(1,2,4-6) answer_live [OF i, of v reply] unfolding fs_inv_def by simp
qed

text \<open>What a registration keeps: the new request is open and untouched, the others are as they were.\<close>

lemma register_simps [simp]:
  "pool (register req m) = pool m" "length (issued (register req m)) = Suc (length (issued m))"
  "live_reqs (register req m) = insert (length (issued m)) (live_reqs m)"
  "misuse (register req m) = misuse m" "invoked (register req m) = invoked m"
  by (simp_all add: register_def)

lemma fs_inv_register:
  assumes "fs_inv v m" "set (replies (pool m)) \<subseteq> set (replies p)"
    and m'_def: "m' = register req (m\<lparr>pool := p\<rparr>)"
  shows "\<forall>j \<in> live_reqs m'. untouched m' j" "\<forall>j \<ge> length (issued m'). j \<notin> fst ` set (invoked m')"
    "\<forall>j < length (issued m'). j \<notin> live_reqs m' \<longrightarrow> settled_as v m' j"
proof -
  have inv: "mfs_inv (pool m)" "next_id (pool m) = length (issued m)" "live_reqs m = in_flight (pool m)"
    "\<forall>i \<in> live_reqs m. untouched m i" "\<forall>i \<ge> length (issued m). i \<notin> fst ` set (invoked m)"
    "\<forall>i < length (issued m). i \<notin> live_reqs m \<longrightarrow> settled_as v m i"
    using assms(1) by (simp_all add: fs_inv_def)
  have old: "j < length (issued m)" if "j \<in> live_reqs m" for j
    using that in_flight_less [OF inv(1)] inv(2,3) by auto
  show "\<forall>j \<in> live_reqs m'. untouched m' j"
  proof
    fix j assume "j \<in> live_reqs m'"
    then show "untouched m' j"
      using inv(4,5) old [of j] by (cases "j = length (issued m)") (auto simp: m'_def register_def untouched_def)
  qed
  show "\<forall>j \<ge> length (issued m'). j \<notin> fst ` set (invoked m')"
    using inv(5) by (auto simp: m'_def)
  show "\<forall>j < length (issued m'). j \<notin> live_reqs m' \<longrightarrow> settled_as v m' j"
  proof (intro allI impI)
    fix j assume "j < length (issued m')" "j \<notin> live_reqs m'"
    then have "j < length (issued m)" "settled_as v m j" using inv(6) by (auto simp: m'_def)
    then obtain reply where "(j, reply) \<in> set (replies p)"
      "case issued m ! j of
         PromiseReq req \<Rightarrow> promises m j = settle v req reply Pending
       | AsyncReq f \<Rightarrow> filter (\<lambda>c. fst c = j) (invoked m) = [(j, f, callback_args v reply)]"
      using assms(2) by (auto simp: settled_as_def)
    with \<open>j < length (issued m)\<close> show "settled_as v m' j"
      unfolding settled_as_def
      by (intro exI [of _ reply]) (auto simp: m'_def register_def nth_append split: fs_request.splits)
  qed
qed

lemma settled_as_pool:
  "settled_as v m i \<Longrightarrow> set (replies (pool m)) \<subseteq> set (replies p) \<Longrightarrow> settled_as v (m\<lparr>pool := p\<rparr>) i"
  unfolding settled_as_def by (auto split: fs_request.splits)

lemma untouched_pool: "untouched (m\<lparr>pool := p\<rparr>) i = untouched m i"
  by (simp add: untouched_def)

lemma fs_inv_step:
  assumes "fs_inv v m" "fs_step v os strerror m e m'"
  shows "fs_inv v m'"
  using assms(2)
proof (cases rule: fs_step.cases)
  case (call_queued st op req r p)
  have p: "mfs_inv p" using mfs_inv_step [OF _ call_queued(4)] assms(1) by (simp add: fs_inv_def)
  have "next_id p = Suc (next_id (pool m))" "in_flight p = insert (next_id (pool m)) (in_flight (pool m))"
    using pool_submit [OF call_queued(4)] call_queued(5) by auto
  with assms(1) p call_queued(2) fs_inv_register [OF assms(1) _ call_queued(2)] call_queued(5) show ?thesis
    unfolding fs_inv_def by simp
next
  case (call_failed st op req r p i reply)
  have p: "mfs_inv p" using mfs_inv_step [OF _ call_failed(4)] assms(1) by (simp add: fs_inv_def)
  have n: "next_id p = Suc (next_id (pool m))" "i = next_id (pool m)" "in_flight p = in_flight (pool m)"
    using pool_submit [OF call_failed(4)] call_failed(5) by auto
  have "i \<notin> in_flight p" using in_flight_less [of "pool m" i] assms(1) n by (auto simp: fs_inv_def)
  with assms(1) p n call_failed(2,5) show ?thesis
    unfolding call_failed(2)
    by (intro fs_inv_answer fs_inv_register [OF assms(1) _ refl]) (auto simp: fs_inv_def)
next
  case (pool_work i p)
  have "mfs_inv p" using mfs_inv_step [OF _ pool_work(3)] assms(1) by (simp add: fs_inv_def)
  with assms(1) pool_work(2) pool_work_keeps [OF pool_work(3)] show ?thesis
    by (auto simp: fs_inv_def untouched_pool intro: settled_as_pool)
next
  case (completed i st p reply)
  have inv: "mfs_inv (pool m)" using assms(1) by (simp add: fs_inv_def)
  have p: "mfs_inv p" using mfs_inv_step [OF inv completed(3)] .
  have n: "next_id p = next_id (pool m)" "i \<in> in_flight (pool m)" "in_flight p = in_flight (pool m) - {i}"
    using pool_after [OF completed(3) inv] by auto
  show ?thesis unfolding completed(2)
  proof (rule fs_inv_answer)
    show "\<forall>j < length (issued (m\<lparr>pool := p\<rparr>)). j \<notin> live_reqs (m\<lparr>pool := p\<rparr>) \<longrightarrow> settled_as v (m\<lparr>pool := p\<rparr>) j"
      using assms(1) completed(4) by (auto simp: fs_inv_def intro: settled_as_pool)
  qed (use assms(1) p n in_flight_less [OF inv n(2)] completed(4) in \<open>auto simp: fs_inv_def untouched_pool\<close>)
qed (use assms(1) in simp)

lemma fs_inv_init: "fs_inv v (fs_calls_init fs)"
  by (simp add: fs_inv_def fs_calls_init_def mfs_init_def mfs_inv_def ids_def in_flight_def)

subsection \<open>All of them are answered\<close>

definition pool_event :: "fs_event \<Rightarrow> bool" where
  "pool_event e = (case e of Call st r \<Rightarrow> False | _ \<Rightarrow> True)"

definition pool_backlog :: "'fs fs_calls \<Rightarrow> nat" where
  "pool_backlog m = 2 * length (queued (pool m)) + length (finished (pool m))"

lemma pool_event_decreases:
  assumes "fs_step v os strerror m e m'" "pool_event e"
  shows "pool_backlog m' < pool_backlog m"
  using assms(1)
proof (cases rule: fs_step.cases)
  case (pool_work i p)
  then show ?thesis by (auto simp: pool_backlog_def elim!: mfs_step.cases)
next
  case (completed i st p reply)
  then show ?thesis by (auto simp: pool_backlog_def elim!: mfs_step.cases)
qed (use assms(2) in \<open>auto simp: pool_event_def\<close>)

lemma pool_event_enabled:
  assumes "0 < pool_backlog m"
  shows "\<exists>e m'. pool_event e \<and> fs_step v os strerror m e m'"
proof (cases "queued (pool m)")
  case (Cons q qs)
  obtain i op where q: "q = (i, op)" by (cases q)
  obtain fs' op' where "workCallback os (disk (pool m)) op = (fs', op')" by (cases "workCallback os (disk (pool m)) op")
  then show ?thesis using work [of "pool m" "[]" i op qs os fs' op' strerror] Cons q
    by (intro exI [of _ "PoolWork i"] exI conjI) (auto simp: pool_event_def intro: pool_work)
next
  case Nil
  then obtain i op xs where "finished (pool m) = (i, op) # xs"
    using assms by (cases "finished (pool m)") (auto simp: pool_backlog_def)
  then show ?thesis using after [of "pool m" "[]" i op xs os strerror 0]
    by (intro exI [of _ "Completed i 0"] exI conjI) (auto simp: pool_event_def intro: completed)
qed

interpretation fs_pool: draining_system "fs_step v os strerror" "fs_inv v" pool_event pool_backlog for v os strerror
  by unfold_locales (erule (1) fs_inv_step, erule (1) pool_event_decreases, rule pool_event_enabled)

lemma drained_all_answered:
  assumes "fs_inv v m" "pool_backlog m = 0" "i < length (issued m)"
  shows "settled_as v m i"
  using assms by (auto simp: fs_inv_def pool_backlog_def in_flight_def)


lemma queued_call:
  assumes "start_request st = Some (op, req)"
  shows "\<exists>m. run (fs_step v os strerror) (fs_calls_init fs) [Call st 0] m \<and> length (issued m) = 1 \<and> 0 \<in> in_flight (pool m)"
proof -
  let ?ini = "mfs_init fs"
  let ?p = "?ini\<lparr>queued := queued ?ini @ [(next_id ?ini, op)], next_id := next_id ?ini + 1,
    printed := printed ?ini @ [announce op]\<rparr>"
  have "mfs_step os strerror ?ini (Submit op 0) ?p" by (rule submit_ok) (simp add: submit_def)
  then have c: "fs_step v os strerror (fs_calls_init fs) (Call st 0) (register req ((fs_calls_init fs)\<lparr>pool := ?p\<rparr>))"
    using assms by (intro call_queued) (simp_all add: fs_calls_init_def)
  show ?thesis
    by (intro exI conjI, rule run_Cons, rule c, rule run_Nil) (auto simp: register_def fs_calls_init_def in_flight_def mfs_init_def)
qed


end
