(* ===== verification/Encoding.thy ===== *)
theory Encoding
  imports V8Helpers
begin

text \<open>
  \<open>src/v8/builtins/encoding.cc\<close>: the \<open>kode:encoding\<close> module, the \<open>TextEncoder\<close> and \<open>TextDecoder\<close>
  globals and \<open>Kode.text\<close>. A buffer or view value carries its bytes (sizes below \<open>2^31\<close>).
\<close>

section \<open>Bytes\<close>

definition char_byte :: "char \<Rightarrow> u8" where
  "char_byte c = of_nat (of_char c)"

definition byte_char :: "u8 \<Rightarrow> char" where
  "byte_char b = char_of (unat b)"

definition ReadByteInput :: "v8 \<Rightarrow> jsval \<Rightarrow> string \<Rightarrow> jsval + u8 list" where
  "ReadByteInput v value operation =
     (case value of
        JBytes (View buffer offset len) \<Rightarrow> Inr (take len (drop offset buffer))
      | JBytes (Buffer buffer) \<Rightarrow> Inr buffer
      | _ \<Rightarrow> Inl (CreateKodeError v ''EINVAL'' ''Expected Uint8Array, ArrayBuffer, or DataView'' operation []))"

definition EncodeUtf8 :: "string \<Rightarrow> jsval" where
  "EncodeUtf8 text = JBytes (View (map char_byte text) 0 (length text))"

definition ascii_lower :: "char \<Rightarrow> char" where
  "ascii_lower c = (let n = (of_char c :: nat) in if 65 \<le> n \<and> n \<le> 90 then char_of (n - 65 + 97) else c)"

definition AsciiLowercase :: "string \<Rightarrow> string" where
  "AsciiLowercase s = map ascii_lower s"

section \<open>Callbacks\<close>

definition EncodeWithOperation :: "v8 \<Rightarrow> jsval list \<Rightarrow> string \<Rightarrow> outcome" where
  "EncodeWithOperation v args operation =
     (case ReadStringArg v args 0 operation of Inl err \<Rightarrow> Throw err | Inr text \<Rightarrow> Return (EncodeUtf8 text))"

definition DecodeWithOperation :: "v8 \<Rightarrow> jsval list \<Rightarrow> string \<Rightarrow> outcome" where
  "DecodeWithOperation v args operation =
     (if length args < 1 then Throw (CreateKodeError v ''EINVAL'' ''Missing byte input'' operation [])
      else (case ReadByteInput v (args ! 0) operation of
              Inl err \<Rightarrow> Throw err
            | Inr bytes \<Rightarrow>
                if max_length v < length bytes
                then Throw (CreateKodeError v ''EINVAL'' ''Invalid UTF-8 input'' operation [])
                else Return (JStr (utf8 v (map byte_char bytes)))))"

definition EncodeUtf8Callback :: "v8 \<Rightarrow> jsval list \<Rightarrow> outcome" where
  "EncodeUtf8Callback v args = EncodeWithOperation v args ''kode:encoding.encodeUtf8''"

definition DecodeUtf8Callback :: "v8 \<Rightarrow> jsval list \<Rightarrow> outcome" where
  "DecodeUtf8Callback v args = DecodeWithOperation v args ''kode:encoding.decodeUtf8''"

definition KodeTextEncodeCallback :: "v8 \<Rightarrow> jsval list \<Rightarrow> outcome" where
  "KodeTextEncodeCallback v args = EncodeWithOperation v args ''Kode.text.encode''"

definition KodeTextDecodeCallback :: "v8 \<Rightarrow> jsval list \<Rightarrow> outcome" where
  "KodeTextDecodeCallback v args = DecodeWithOperation v args ''Kode.text.decode''"

definition TextEncoderEncodeCallback :: "v8 \<Rightarrow> jsval list \<Rightarrow> outcome" where
  "TextEncoderEncodeCallback v args = EncodeWithOperation v args ''TextEncoder.encode''"

definition TextDecoderDecodeCallback :: "v8 \<Rightarrow> jsval list \<Rightarrow> outcome" where
  "TextDecoderDecodeCallback v args = DecodeWithOperation v args ''TextDecoder.decode''"

text \<open>The constructors return undefined to V8, which then uses the new object.\<close>

definition TextEncoderConstructor :: "v8 \<Rightarrow> bool \<Rightarrow> jsval list \<Rightarrow> outcome" where
  "TextEncoderConstructor v is_new args =
     (if \<not> is_new then Throw (CreateKodeError v ''EINVAL'' ''TextEncoder requires new'' ''TextEncoder'' [])
      else Return JUndefined)"

definition TextDecoderConstructor :: "v8 \<Rightarrow> bool \<Rightarrow> jsval list \<Rightarrow> outcome" where
  "TextDecoderConstructor v is_new args =
     (if \<not> is_new then Throw (CreateKodeError v ''EINVAL'' ''TextDecoder requires new'' ''TextDecoder'' [])
      else if 0 < length args \<and> \<not> IsUndefined (args ! 0) then
        (case ReadStringArg v args 0 ''TextDecoder'' of
           Inl err \<Rightarrow> Throw err
         | Inr label \<Rightarrow>
            (let normalized_label = AsciiLowercase label in
             if normalized_label \<noteq> ''utf-8'' \<and> normalized_label \<noteq> ''utf8''
             then Throw (CreateKodeError v ''EUNSUPPORTED_ENCODING''
                    (''Unsupported encoding '' @ [CHR 0x27] @ label @ [CHR 0x27]) ''TextDecoder'' label)
             else Return JUndefined))
      else Return JUndefined)"

definition CreateEncodingModule :: jsval where
  "CreateEncodingModule = JHost
     [(''encodeUtf8'', JFun ''EncodeUtf8Callback''), (''decodeUtf8'', JFun ''DecodeUtf8Callback'')] False"

text \<open>
  The globals: \<open>ok\<close> says whether each \<open>GetFunction\<close> and \<open>Set\<close> of V8 succeeds, in order.
\<close>

definition InstallTextEncodingGlobals :: "bool \<times> bool \<times> bool \<times> bool \<Rightarrow> jsval \<Rightarrow> jsval \<times> bool" where
  "InstallTextEncodingGlobals ok global =
     (case ok of (f1, s1, f2, s2) \<Rightarrow>
        if \<not> f1 then (global, False)
        else if \<not> s1 then (global, False)
        else (let g = SetProp global ''TextEncoder'' (JFun ''TextEncoder'') in
              if \<not> f2 then (g, False)
              else if \<not> s2 then (g, False)
              else (SetProp g ''TextDecoder'' (JFun ''TextDecoder''), True)))"

definition InstallKodeTextApi :: "bool \<Rightarrow> jsval \<Rightarrow> jsval \<times> bool" where
  "InstallKodeTextApi ok kode =
     (if \<not> ok then (kode, False)
      else (SetProp kode ''text'' (FreezeValue (JHost
              [(''encode'', JFun ''KodeTextEncodeCallback''), (''decode'', JFun ''KodeTextDecodeCallback'')] False)),
            True))"

section \<open>Properties\<close>

lemma byte_char_byte [simp]: "byte_char (char_byte c) = c"
proof -
  have "(of_char c :: nat) < 256" by (cases c) (auto simp: of_char_def)
  then have "unat (of_nat (of_char c) :: u8) = of_char c" by (simp add: unat_of_nat)
  then show ?thesis by (simp add: byte_char_def char_byte_def)
qed

lemma bytes_roundtrip: "map byte_char (map char_byte s) = s"
  by (simp add: comp_def)

text \<open>
  Decoding what an encoder returned gives the string back, for the module functions, for
  Kode.text and for TextEncoder and TextDecoder: every string that V8 can hold and whose UTF-8 it
  decodes unchanged.
\<close>
theorem encode_decode_roundtrip:
  "utf8 v s = s \<Longrightarrow> length s \<le> max_length v \<Longrightarrow>
     \<exists>b. EncodeUtf8Callback v [JStr s] = Return b \<and> KodeTextEncodeCallback v [JStr s] = Return b
       \<and> TextEncoderEncodeCallback v [JStr s] = Return b
       \<and> DecodeUtf8Callback v [b] = Return (JStr s) \<and> KodeTextDecodeCallback v [b] = Return (JStr s)
       \<and> TextDecoderDecodeCallback v [b] = Return (JStr s)"
  using bytes_roundtrip [of s]
  by (simp add: EncodeUtf8Callback_def KodeTextEncodeCallback_def TextEncoderEncodeCallback_def
      DecodeUtf8Callback_def KodeTextDecodeCallback_def TextDecoderDecodeCallback_def EncodeWithOperation_def
      DecodeWithOperation_def ReadStringArg_def EncodeUtf8_def ReadByteInput_def Let_def)

theorem encode_decode_roundtrip_witness:
  "\<exists>b. EncodeUtf8Callback plain_v8 [JStr ''abc''] = Return b
     \<and> DecodeUtf8Callback plain_v8 [b] = Return (JStr ''abc'')"
  using encode_decode_roundtrip [of plain_v8 "''abc''"] by (auto simp: plain_v8_def)

end
