(* ===== verification/ModuleLoader.thy ===== *)
theory ModuleLoader
  imports FsModule Encoding Sha256
begin

text \<open>
  \<open>src/v8/module_loader.cc\<close>: \<open>require\<close>. The loader's three globals are a record; module objects
  live in a store, because the cache and the running module share them. Compiling a module is a
  parameter: it gives the behaviour of the module's function, a tree of the things that the loader
  can observe of it (calls of \<open>require\<close>, assignments to \<open>module.exports\<close>, return and exception).
  Modules load each other, so that loading takes fuel: a bound on the depth of the nested calls.
\<close>

section \<open>State and parameters\<close>

datatype script =
    SReturn
  | SThrow jsval
  | SExports jsval script
  | SRequire string "outcome \<Rightarrow> script"

record js_env =
  compile :: "string \<Rightarrow> string \<Rightarrow> jsval + script"  \<comment> \<open>file name and wrapped source\<close>
  global_require :: bool                            \<comment> \<open>is the global \<open>require\<close> a function?\<close>

record loader =
  module_cache :: "string \<rightharpoonup> nat"
  module_store :: "nat \<Rightarrow> jsval"    \<comment> \<open>the \<open>exports\<close> of each module object\<close>
  module_next :: nat
  dir_stack :: "string list"        \<comment> \<open>innermost first\<close>
  entry_dir :: string

definition empty_exports :: jsval where
  "empty_exports = JHost [] False"

definition SetModuleEntryDirectory :: "string \<Rightarrow> string \<Rightarrow> loader \<Rightarrow> loader option" where
  "SetModuleEntryDirectory cwd fname l =
     map_option (\<lambda>p. l\<lparr>entry_dir := Dirname p\<rparr>) (NormalizePath cwd fname)"

definition ClearModuleCache :: "loader \<Rightarrow> loader" where
  "ClearModuleCache l = l\<lparr>module_cache := Map.empty, dir_stack := [], entry_dir := []\<rparr>"

definition IsLocalSpecifier :: "string \<Rightarrow> bool" where
  "IsLocalSpecifier s \<longleftrightarrow> prefix ''./'' s \<or> prefix ''../'' s"

definition ReadFileText :: "'fs os \<Rightarrow> 'fs \<Rightarrow> string \<Rightarrow> string option" where
  "ReadFileText os fs p = open_in os fs p"

definition FileExists :: "'fs os \<Rightarrow> 'fs \<Rightarrow> string \<Rightarrow> bool" where
  "FileExists os fs p \<longleftrightarrow> path_status os fs p = Inr Regular"

definition ResolveLocalModulePath :: "'fs os \<Rightarrow> 'fs \<Rightarrow> string \<Rightarrow> string \<Rightarrow> string \<Rightarrow> string option" where
  "ResolveLocalModulePath os fs cwd base_dir specifier =
     map_option (\<lambda>literal.
       if FileExists os fs literal then literal
       else if extension literal = [] then literal @ ''.js''
       else literal)
     (NormalizePath cwd (path_append base_dir specifier))"

definition wrap_source :: "string \<Rightarrow> string" where
  "wrap_source source_text =
     (let w = ''(function(exports, require, module, __filename, __dirname) {'' @ source_text
      in (if w = [] \<or> last w \<noteq> CHR 0x0A then w @ [CHR 0x0A] else w) @ ''})'')"

definition base_dir :: "loader \<Rightarrow> string" where
  "base_dir l = (if dir_stack l \<noteq> [] then hd (dir_stack l) else entry_dir l)"

definition builtin_module :: "string \<Rightarrow> jsval option" where
  "builtin_module n =
     (if n = ''kode:path'' then Some CreatePathModule
      else if n = ''kode:crypto'' then Some CreateCryptoModule
      else if n = ''kode:encoding'' then Some CreateEncodingModule
      else if n = ''fs'' \<or> n = ''kode:fs'' then Some CreateFsModule
      else None)"

definition unsupported :: "v8 \<Rightarrow> string \<Rightarrow> jsval" where
  "unsupported v n = CreateKodeError v ''EUNSUPPORTED_MODULE''
     (''Unsupported module '' @ [CHR 0x27] @ n @ [CHR 0x27]) ''module.require'' n"

definition not_found :: "v8 \<Rightarrow> string \<Rightarrow> string \<Rightarrow> jsval" where
  "not_found v specifier fname = CreateKodeError v ''EMODULE_NOT_FOUND''
     (''Cannot find module '' @ [CHR 0x27] @ specifier @ [CHR 0x27]) ''module.require'' fname"

section \<open>Loading\<close>

text \<open>
  The new module object of a file, and what is left when loading it fails: the entry is erased
  from the cache (the object itself is garbage).
\<close>

definition begin_module :: "string \<Rightarrow> loader \<Rightarrow> loader" where
  "begin_module fname l =
     l\<lparr>module_cache := (module_cache l)(fname \<mapsto> module_next l),
       module_store := (module_store l)(module_next l := empty_exports),
       module_next := module_next l + 1\<rparr>"

definition erase_module :: "string \<Rightarrow> loader \<Rightarrow> loader" where
  "erase_module fname l = l\<lparr>module_cache := (module_cache l)(fname := None)\<rparr>"

definition push_dir :: "string \<Rightarrow> loader \<Rightarrow> loader" where
  "push_dir d l = l\<lparr>dir_stack := d # dir_stack l\<rparr>"

definition pop_dir :: "loader \<Rightarrow> loader" where
  "pop_dir l = l\<lparr>dir_stack := tl (dir_stack l)\<rparr>"

definition set_exports :: "nat \<Rightarrow> jsval \<Rightarrow> loader \<Rightarrow> loader" where
  "set_exports m x l = l\<lparr>module_store := (module_store l)(m := x)\<rparr>"

record 'fs world =
  w_v8 :: v8
  w_env :: js_env
  w_os :: "'fs os"
  w_fs :: 'fs
  w_cwd :: string

fun LoadLocalModule :: "nat \<Rightarrow> 'fs world \<Rightarrow> string \<Rightarrow> loader \<Rightarrow> (loader \<times> outcome) option"
  and run_module :: "nat \<Rightarrow> 'fs world \<Rightarrow> nat \<Rightarrow> script \<Rightarrow> loader \<Rightarrow> (loader \<times> jsval option) option"
  and require :: "nat \<Rightarrow> 'fs world \<Rightarrow> string \<Rightarrow> loader \<Rightarrow> (loader \<times> outcome) option" where
  "LoadLocalModule 0 w specifier l = None"
| "LoadLocalModule (Suc n) w specifier l =
     (case ResolveLocalModulePath (w_os w) (w_fs w) (w_cwd w) (base_dir l) specifier of
        None \<Rightarrow> None
      | Some fname \<Rightarrow>
         (case module_cache l fname of
            Some m \<Rightarrow> Some (l, Return (module_store l m))
          | None \<Rightarrow>
             (case ReadFileText (w_os w) (w_fs w) fname of
                None \<Rightarrow> Some (l, Throw (not_found (w_v8 w) specifier fname))
              | Some source_text \<Rightarrow>
                 (let m = module_next l; l1 = begin_module fname l in
                  case compile (w_env w) fname (wrap_source source_text) of
                    Inl err \<Rightarrow> Some (erase_module fname l1, Throw err)
                  | Inr body \<Rightarrow>
                      if \<not> global_require (w_env w) then
                        Some (erase_module fname l1, Throw (CreateKodeError (w_v8 w) ''EINTERNAL''
                          ''Global require is not available'' ''module.require'' fname))
                      else
                       (case run_module n w m body (push_dir (Dirname fname) l1) of
                          None \<Rightarrow> None
                        | Some (l2, Some err) \<Rightarrow> Some (erase_module fname (pop_dir l2), Throw err)
                        | Some (l2, None) \<Rightarrow> Some (pop_dir l2, Return (module_store l2 m)))))))"
| "run_module n w m SReturn l = Some (l, None)"
| "run_module n w m (SThrow err) l = Some (l, Some err)"
| "run_module 0 w m (SExports x k) l = None"
| "run_module (Suc n) w m (SExports x k) l = run_module n w m k (set_exports m x l)"
| "run_module 0 w m (SRequire s k) l = None"
| "run_module (Suc n) w m (SRequire s k) l =
     (case require n w s l of
        None \<Rightarrow> None
      | Some (l1, r) \<Rightarrow> run_module n w m (k r) l1)"
| "require 0 w nm l = None"
| "require (Suc n) w nm l =
     (case builtin_module nm of
        Some x \<Rightarrow> Some (l, Return x)
      | None \<Rightarrow>
          if IsLocalSpecifier nm then LoadLocalModule n w nm l
          else Some (l, Throw (unsupported (w_v8 w) nm)))"

text \<open>\<open>RequireCallback\<close>: the argument must be a string.\<close>

definition RequireCallback :: "nat \<Rightarrow> 'fs world \<Rightarrow> jsval list \<Rightarrow> loader \<Rightarrow> (loader \<times> outcome) option" where
  "RequireCallback n w args l =
     (if length args < 1 \<or> \<not> IsString (args ! 0)
      then Some (l, Throw (CreateKodeError (w_v8 w) ''EINVAL'' ''require requires a module string'' ''module.require'' []))
      else require n w (string_of (args ! 0)) l)"

section \<open>The stack of directories\<close>

lemma begin_module_dirs [simp]: "dir_stack (begin_module f l) = dir_stack l" "entry_dir (begin_module f l) = entry_dir l"
  by (simp_all add: begin_module_def)

lemma erase_module_dirs [simp]: "dir_stack (erase_module f l) = dir_stack l" "entry_dir (erase_module f l) = entry_dir l"
  by (simp_all add: erase_module_def)

lemma set_exports_dirs [simp]: "dir_stack (set_exports m x l) = dir_stack l" "entry_dir (set_exports m x l) = entry_dir l"
  by (simp_all add: set_exports_def)

text \<open>
  What a call of \<open>LoadLocalModule\<close> did, for the proofs below: it found the file in the cache, could
  not read it, failed before running it, or ran it.
\<close>

lemma load_cases [consumes 1, case_names cached missing refused failed ok]:
  assumes "LoadLocalModule (Suc n) w s l = Some (l', r)"
  obtains
    fname m where "ResolveLocalModulePath (w_os w) (w_fs w) (w_cwd w) (base_dir l) s = Some fname"
      "module_cache l fname = Some m" "l' = l" "r = Return (module_store l m)"
  | fname where "ResolveLocalModulePath (w_os w) (w_fs w) (w_cwd w) (base_dir l) s = Some fname"
      "module_cache l fname = None" "l' = l" "r = Throw (not_found (w_v8 w) s fname)"
  | fname err where "ResolveLocalModulePath (w_os w) (w_fs w) (w_cwd w) (base_dir l) s = Some fname"
      "module_cache l fname = None" "l' = erase_module fname (begin_module fname l)" "r = Throw err"
  | fname body l2 err where "ResolveLocalModulePath (w_os w) (w_fs w) (w_cwd w) (base_dir l) s = Some fname"
      "module_cache l fname = None"
      "run_module n w (module_next l) body (push_dir (Dirname fname) (begin_module fname l)) = Some (l2, Some err)"
      "l' = erase_module fname (pop_dir l2)" "r = Throw err"
  | fname body l2 where "ResolveLocalModulePath (w_os w) (w_fs w) (w_cwd w) (base_dir l) s = Some fname"
      "module_cache l fname = None"
      "run_module n w (module_next l) body (push_dir (Dirname fname) (begin_module fname l)) = Some (l2, None)"
      "l' = pop_dir l2" "r = Return (module_store l2 (module_next l))"
proof -
  obtain fname where f: "ResolveLocalModulePath (w_os w) (w_fs w) (w_cwd w) (base_dir l) s = Some fname"
    using assms by (cases "ResolveLocalModulePath (w_os w) (w_fs w) (w_cwd w) (base_dir l) s") auto
  show thesis
  proof (cases "module_cache l fname")
    case (Some m)
    with assms f show thesis by (intro that(1)) auto
  next
    case c: None
    show thesis
    proof (cases "ReadFileText (w_os w) (w_fs w) fname")
      case None
      with assms f c show thesis by (intro that(2)) auto
    next
      case t: (Some src)
      show thesis
      proof (cases "compile (w_env w) fname (wrap_source src)")
        case (Inl err)
        with assms f c t show thesis by (intro that(3)) (auto simp: Let_def)
      next
        case b: (Inr body)
        show thesis
        proof (cases "global_require (w_env w)")
          case False
          with assms f c t b show thesis by (intro that(3)) (auto simp: Let_def)
        next
          case True
          let ?run = "run_module n w (module_next l) body (push_dir (Dirname fname) (begin_module fname l))"
          from assms f c t b True obtain l2 e where run: "?run = Some (l2, e)"
            by (cases ?run) (auto simp: Let_def)
          show thesis
          proof (cases e)
            case None
            with assms f c t b True run show thesis by (intro that(5)) (auto simp: Let_def)
          next
            case (Some err)
            with assms f c t b True run show thesis by (intro that(4)) (auto simp: Let_def)
          qed
        qed
      qed
    qed
  qed
qed

lemmas loader_edits = begin_module_def erase_module_def push_dir_def pop_dir_def set_exports_def

text \<open>
  A relation between the loader before and after that every edit keeps holds across \<open>require\<close>,
  however the modules load each other.
\<close>

locale loader_relation =
  fixes R :: "loader \<Rightarrow> loader \<Rightarrow> bool"
  assumes refl: "R l l"
    and trans: "R l l1 \<Longrightarrow> R l1 l2 \<Longrightarrow> R l l2"
    and exports: "R l (set_exports m x l)"
    and refused: "module_cache l f = None \<Longrightarrow> R l (erase_module f (begin_module f l))"
    and failed: "module_cache l f = None \<Longrightarrow> R (push_dir d (begin_module f l)) l2 \<Longrightarrow> R l (erase_module f (pop_dir l2))"
    and loaded: "module_cache l f = None \<Longrightarrow> R (push_dir d (begin_module f l)) l2 \<Longrightarrow> R l (pop_dir l2)"
begin

lemma all_related:
  "(\<forall>s l l' r. LoadLocalModule n w s l = Some (l', r) \<longrightarrow> R l l')
   \<and> (\<forall>m k l l' e. run_module n w m k l = Some (l', e) \<longrightarrow> R l l')
   \<and> (\<forall>s l l' r. require n w s l = Some (l', r) \<longrightarrow> R l l')"
proof (induction n)
  case 0
  have "run_module 0 w m k l = Some (l', e) \<Longrightarrow> R l l'" for m k l l' e
    by (cases k) (auto intro: refl)
  then show ?case by auto
next
  case (Suc n)
  then have load: "\<And>s l l' r. LoadLocalModule n w s l = Some (l', r) \<Longrightarrow> R l l'"
    and run: "\<And>m k l l' e. run_module n w m k l = Some (l', e) \<Longrightarrow> R l l'"
    and req: "\<And>s l l' r. require n w s l = Some (l', r) \<Longrightarrow> R l l'" by blast+
  have "R l l'" if "LoadLocalModule (Suc n) w s l = Some (l', r)" for s l l' r
    using that by (cases rule: load_cases) (auto intro: refl refused failed loaded dest: run)
  moreover have "R l l'" if "run_module (Suc n) w m k l = Some (l', e)" for m k l l' e
  proof (cases k)
    case (SExports x k')
    with that run have "R (set_exports m x l) l'" by auto
    then show ?thesis by (rule trans [OF exports])
  next
    case (SRequire s k')
    with that obtain l1 r where "require n w s l = Some (l1, r)" "run_module n w m (k' r) l1 = Some (l', e)"
      by (auto split: option.splits)
    with req run show ?thesis by (blast intro: trans)
  qed (use that in \<open>auto intro: refl\<close>)
  moreover have "R l l'" if "require (Suc n) w s l = Some (l', r)" for s l l' r
    using that load by (auto intro: refl split: option.splits if_splits)
  ultimately show ?case by blast
qed

lemma load_related: "LoadLocalModule n w s l = Some (l', r) \<Longrightarrow> R l l'"
  and run_related: "run_module n w m k l = Some (l', e) \<Longrightarrow> R l l'"
  and require_related: "require n w s l = Some (l', r) \<Longrightarrow> R l l'"
  using all_related by blast+

end

definition dirs_kept :: "loader \<Rightarrow> loader \<Rightarrow> bool" where
  "dirs_kept l l' \<longleftrightarrow> dir_stack l' = dir_stack l \<and> entry_dir l' = entry_dir l"

interpretation dirs: loader_relation dirs_kept
  by unfold_locales (auto simp: dirs_kept_def loader_edits)

text \<open>What is cached stays cached, as the same module object.\<close>

definition cache_kept :: "loader \<Rightarrow> loader \<Rightarrow> bool" where
  "cache_kept l l' \<longleftrightarrow> module_cache l \<subseteq>\<^sub>m module_cache l'"

interpretation cache: loader_relation cache_kept
proof
  fix l f d l2
  assume f: "module_cache l f = None" and r: "cache_kept (push_dir d (begin_module f l)) l2"
  then have m: "(module_cache l)(f \<mapsto> module_next l) \<subseteq>\<^sub>m module_cache l2" by (simp add: cache_kept_def loader_edits)
  show "cache_kept l (erase_module f (pop_dir l2))" "cache_kept l (pop_dir l2)"
    using f m by (auto simp: cache_kept_def loader_edits map_le_def dom_def split: if_splits)
next
  fix l l1 l2
  show "cache_kept l l1 \<Longrightarrow> cache_kept l1 l2 \<Longrightarrow> cache_kept l l2"
    unfolding cache_kept_def by (rule map_le_trans)
qed (auto simp: cache_kept_def loader_edits map_le_def)

lemma base_dir_kept: "dirs_kept l l' \<Longrightarrow> base_dir l' = base_dir l"
  by (simp add: dirs_kept_def base_dir_def)

lemma load_cached:
  assumes "LoadLocalModule n w s l = Some (l', Return x)"
  obtains f m where "ResolveLocalModulePath (w_os w) (w_fs w) (w_cwd w) (base_dir l) s = Some f"
    "module_cache l' f = Some m" "x = module_store l' m"
proof -
  obtain k where n: "n = Suc k" using assms by (cases n) auto
  from assms [unfolded n] show thesis
  proof (cases rule: load_cases)
    case (ok f body l2)
    have "cache_kept (push_dir (Dirname f) (begin_module f l)) l2" using cache.run_related [OF ok(3)] .
    then have "module_cache l2 f = Some (module_next l)"
      by (auto simp: cache_kept_def loader_edits map_le_def dom_def)
    with ok show thesis by (intro that [of f "module_next l"]) (auto simp: pop_dir_def)
  qed (use that in auto)
qed

text \<open>
  C5. A module is run once: when require of a local module has returned, requiring it again from
  the same place returns the same value and changes nothing, neither the cache nor the store; and
  loading it has left the stack of directories as it was, however the modules load each other.
\<close>
theorem require_runs_once:
  assumes "LoadLocalModule n w s l = Some (l1, Return x)"
  shows "LoadLocalModule n w s l1 = Some (l1, Return x) \<and> dir_stack l1 = dir_stack l"
proof -
  obtain f m where f: "ResolveLocalModulePath (w_os w) (w_fs w) (w_cwd w) (base_dir l) s = Some f"
    "module_cache l1 f = Some m" "x = module_store l1 m" using load_cached [OF assms] .
  have d: "dirs_kept l l1" using dirs.load_related [OF assms] .
  obtain k where "n = Suc k" using assms by (cases n) auto
  with f base_dir_kept [OF d] d show ?thesis by (simp add: dirs_kept_def)
qed

text \<open>
  C31. A module that fails is not cached: after require has thrown for a local module, the cache
  has no entry for its file, so that the next require tries again; the directories are restored and
  every module that was cached before still is.
\<close>
theorem require_failure_not_cached:
  assumes "LoadLocalModule n w s l = Some (l1, Throw e)"
  shows "(\<exists>f. ResolveLocalModulePath (w_os w) (w_fs w) (w_cwd w) (base_dir l) s = Some f
       \<and> module_cache l1 f = None)
    \<and> dir_stack l1 = dir_stack l \<and> module_cache l \<subseteq>\<^sub>m module_cache l1"
proof -
  obtain k where n: "n = Suc k" using assms by (cases n) auto
  have "\<exists>f. ResolveLocalModulePath (w_os w) (w_fs w) (w_cwd w) (base_dir l) s = Some f \<and> module_cache l1 f = None"
    using assms [unfolded n] by (cases rule: load_cases) (auto simp: erase_module_def)
  with dirs.load_related [OF assms] cache.load_related [OF assms] show ?thesis
    by (simp add: dirs_kept_def cache_kept_def)
qed

section \<open>A program with a cycle\<close>

definition demo_files :: "string \<rightharpoonup> string" where
  "demo_files = [''/m/a.js'' \<mapsto> ''A'', ''/m/b.js'' \<mapsto> ''B'', ''/m/bad.js'' \<mapsto> ''X'']"

text \<open>a exports 1, requires b and exports 2; b requires a and exports what it got.\<close>

definition demo_compile :: "string \<Rightarrow> string \<Rightarrow> jsval + script" where
  "demo_compile f src =
     (if f = ''/m/a.js'' then Inr (SExports (JStr ''1'') (SRequire ''./b'' (\<lambda>r. SExports (JStr ''2'') SReturn)))
      else if f = ''/m/b.js'' then Inr (SRequire ''./a'' (\<lambda>r. case r of Return x \<Rightarrow> SExports x SReturn | Throw e \<Rightarrow> SThrow e))
      else Inr (SThrow (JStr ''boom'')))"

definition demo_world :: "(string \<rightharpoonup> string) world" where
  "demo_world = \<lparr> w_v8 = plain_v8, w_env = \<lparr> compile = demo_compile, global_require = True \<rparr>,
     w_os = mem_os, w_fs = demo_files, w_cwd = ''/'' \<rparr>"

definition demo_loader :: loader where
  "demo_loader = \<lparr> module_cache = Map.empty, module_store = (\<lambda>n. JUndefined), module_next = 0,
     dir_stack = [], entry_dir = ''/m'' \<rparr>"

definition demo_load :: "string \<Rightarrow> (loader \<times> outcome) option" where
  "demo_load s = LoadLocalModule 12 demo_world s demo_loader"

theorem require_runs_once_witness:
  "\<exists>l1. LoadLocalModule 12 demo_world ''./a'' demo_loader = Some (l1, Return (JStr ''2''))
     \<and> LoadLocalModule 12 demo_world ''./a'' l1 = Some (l1, Return (JStr ''2'')) \<and> dir_stack l1 = []"
proof -
  have "map_option snd (demo_load ''./a'') = Some (Return (JStr ''2''))" by code_simp
  then obtain l1 where l: "LoadLocalModule 12 demo_world ''./a'' demo_loader = Some (l1, Return (JStr ''2''))"
    by (auto simp: demo_load_def)
  with require_runs_once [OF l] show ?thesis by (auto simp: demo_loader_def)
qed

theorem require_failure_not_cached_witness:
  "\<exists>l1 f. LoadLocalModule 12 demo_world ''./bad'' demo_loader = Some (l1, Throw (JStr ''boom''))
     \<and> ResolveLocalModulePath (w_os demo_world) (w_fs demo_world) (w_cwd demo_world) (base_dir demo_loader) ''./bad'' = Some f
     \<and> module_cache l1 f = None"
proof -
  have "map_option snd (demo_load ''./bad'') = Some (Throw (JStr ''boom''))" by code_simp
  then obtain l1 where l: "LoadLocalModule 12 demo_world ''./bad'' demo_loader = Some (l1, Throw (JStr ''boom''))"
    by (auto simp: demo_load_def)
  with require_failure_not_cached [OF l] show ?thesis by blast
qed

text \<open>In a cycle the inner \<open>require\<close> sees the exports assigned so far: b exports 1, a ends with 2.\<close>

lemma require_cycle_partial:
  "map_option (\<lambda>(l, r). (r, module_store l 1)) (demo_load ''./a'') = Some (Return (JStr ''2''), JStr ''1'')"
  by code_simp

section \<open>Fuel\<close>

text \<open>More fuel does not change a result: the bound only cuts off loads that nest deeper.\<close>

lemma fuel_mono:
  "(\<forall>s l y. LoadLocalModule n w s l = Some y \<longrightarrow> LoadLocalModule (Suc n) w s l = Some y)
   \<and> (\<forall>m k l y. run_module n w m k l = Some y \<longrightarrow> run_module (Suc n) w m k l = Some y)
   \<and> (\<forall>s l y. require n w s l = Some y \<longrightarrow> require (Suc n) w s l = Some y)"
proof (induction n)
  case 0
  have "run_module 0 w m k l = Some y \<Longrightarrow> run_module (Suc 0) w m k l = Some y" for m k l y
    by (cases k) auto
  then show ?case by auto
next
  case (Suc n)
  then have load: "\<And>s l y. LoadLocalModule n w s l = Some y \<Longrightarrow> LoadLocalModule (Suc n) w s l = Some y"
    and run: "\<And>m k l y. run_module n w m k l = Some y \<Longrightarrow> run_module (Suc n) w m k l = Some y"
    and req: "\<And>s l y. require n w s l = Some y \<Longrightarrow> require (Suc n) w s l = Some y" by blast+
  have "LoadLocalModule (Suc (Suc n)) w s l = Some y" if "LoadLocalModule (Suc n) w s l = Some y" for s l y
    using that unfolding LoadLocalModule.simps
    by (auto simp: Let_def simp del: LoadLocalModule.simps run_module.simps require.simps
        dest: run split: option.splits sum.splits if_splits prod.splits)
  moreover have "run_module (Suc (Suc n)) w m k l = Some y" if "run_module (Suc n) w m k l = Some y" for m k l y
  proof (cases k)
    case (SExports x k')
    with that run show ?thesis by simp
  next
    case (SRequire s k')
    with that obtain l1 r where "require n w s l = Some (l1, r)" "run_module n w m (k' r) l1 = Some y"
      by (auto split: option.splits)
    from req [OF this(1)] run [OF this(2)] SRequire show ?thesis by (simp del: require.simps)
  qed (use that in auto)
  moreover have "require (Suc (Suc n)) w s l = Some y" if "require (Suc n) w s l = Some y" for s l y
    using that load unfolding require.simps by (auto split: option.splits if_splits simp del: LoadLocalModule.simps)
  ultimately show ?case by blast
qed

lemma fuel_le:
  assumes "n \<le> n'"
  shows "LoadLocalModule n w s l = Some y \<Longrightarrow> LoadLocalModule n' w s l = Some y"
    "run_module n w m k l = Some z \<Longrightarrow> run_module n' w m k l = Some z"
    "require n w s l = Some y \<Longrightarrow> require n' w s l = Some y"
  using assms by (induction rule: dec_induct; use fuel_mono in blast)+

section \<open>Termination\<close>

text \<open>
  Every nested load caches one more readable file before it runs it, so that on a disk with finitely
  many of them the nesting is bounded, cycles included; between two calls of \<open>require\<close> a module does
  one step of its own code.
\<close>

definition unloaded :: "'fs world \<Rightarrow> loader \<Rightarrow> string set" where
  "unloaded w l = {f. ReadFileText (w_os w) (w_fs w) f \<noteq> None \<and> module_cache l f = None}"

lemma resolve_local: "IsLocalSpecifier s \<Longrightarrow> \<exists>f. ResolveLocalModulePath os fs cwd d s = Some f"
proof -
  assume "IsLocalSpecifier s"
  then have "s \<noteq> []" by (auto simp: IsLocalSpecifier_def)
  then have "path_append d s \<noteq> []" by (simp add: path_append_def)
  then show ?thesis by (simp add: ResolveLocalModulePath_def NormalizePath_def absolute_def)
qed

lemma finite_unloaded:
  assumes "finite {f. ReadFileText (w_os w) (w_fs w) f \<noteq> None}"
  shows "finite (unloaded w l)"
  by (rule finite_subset [OF _ assms]) (auto simp: unloaded_def)

lemma unloaded_kept:
  assumes "finite {f. ReadFileText (w_os w) (w_fs w) f \<noteq> None}"
  shows "cache_kept l l' \<Longrightarrow> card (unloaded w l') \<le> card (unloaded w l)"
  by (intro card_mono finite_unloaded [OF assms]) (auto simp: unloaded_def cache_kept_def map_le_def dom_def)

lemma unloaded_begin:
  assumes finite: "finite {f. ReadFileText (w_os w) (w_fs w) f \<noteq> None}"
    and "ReadFileText (w_os w) (w_fs w) f = Some src" "module_cache l f = None"
  shows "card (unloaded w (push_dir d (begin_module f l))) < card (unloaded w l)"
  using assms by (intro psubset_card_mono finite_unloaded [OF finite]) (auto simp: unloaded_def loader_edits split: if_splits)

lemma run_terminates:
  assumes finite: "finite {f. ReadFileText (w_os w) (w_fs w) f \<noteq> None}"
    and ends: "\<And>s l. card (unloaded w l) < c \<Longrightarrow> \<exists>n y. require n w s l = Some y"
  shows "card (unloaded w l) < c \<Longrightarrow> \<exists>n y. run_module n w m k l = Some y"
proof (induction k arbitrary: l)
  case (SExports x k)
  have "card (unloaded w (set_exports m x l)) < c" using SExports.prems by (simp add: unloaded_def set_exports_def)
  from SExports.IH [OF this] obtain n y where "run_module n w m k (set_exports m x l) = Some y" by blast
  then have "run_module (Suc n) w m (SExports x k) l = Some y" by simp
  then show ?case by blast
next
  case (SRequire s k)
  obtain n l1 r where r: "require n w s l = Some (l1, r)" using ends [OF SRequire.prems] by force
  have "card (unloaded w l1) < c"
    using unloaded_kept [OF finite cache.require_related [OF r]] SRequire.prems by simp
  from SRequire.IH [OF rangeI this] obtain n' y where y: "run_module n' w m (k r) l1 = Some y" by blast
  have "run_module (Suc (max n n')) w m (SRequire s k) l = Some y"
    using fuel_le(3) [OF max.cobounded1 r] fuel_le(2) [OF max.cobounded2 y] by simp
  then show ?case by blast
qed (metis run_module.simps)+

lemma load_terminates:
  assumes finite: "finite {f. ReadFileText (w_os w) (w_fs w) f \<noteq> None}"
    and local: "IsLocalSpecifier s"
    and runs: "\<And>m k l'. card (unloaded w l') < card (unloaded w l) \<Longrightarrow> \<exists>n y. run_module n w m k l' = Some y"
  shows "\<exists>n y. LoadLocalModule n w s l = Some y"
proof -
  obtain f where f: "ResolveLocalModulePath (w_os w) (w_fs w) (w_cwd w) (base_dir l) s = Some f"
    using resolve_local [OF local, of "w_os w" "w_fs w" "w_cwd w" "base_dir l"] by blast
  show ?thesis
  proof (cases "\<exists>src body. module_cache l f = None \<and> ReadFileText (w_os w) (w_fs w) f = Some src
      \<and> compile (w_env w) f (wrap_source src) = Inr body \<and> global_require (w_env w)")
    case True
    then obtain src body where b: "module_cache l f = None" "ReadFileText (w_os w) (w_fs w) f = Some src"
      "compile (w_env w) f (wrap_source src) = Inr body" "global_require (w_env w)" by blast
    from runs [OF unloaded_begin [OF finite b(2,1)]] obtain n l2 e where
      "run_module n w (module_next l) body (push_dir (Dirname f) (begin_module f l)) = Some (l2, e)" by force
    with f b have "LoadLocalModule (Suc n) w s l \<noteq> None" by (cases e) (simp_all add: Let_def)
    then show ?thesis by blast
  next
    case False
    with f have "LoadLocalModule (Suc 0) w s l \<noteq> None"
      by (auto simp: Let_def split: option.splits sum.splits)
    then show ?thesis by blast
  qed
qed

lemma require_ends:
  assumes finite: "finite {f. ReadFileText (w_os w) (w_fs w) f \<noteq> None}"
  shows "\<exists>n y. require n w s l = Some y"
proof (induction "card (unloaded w l)" arbitrary: s l rule: less_induct)
  case less
  show ?case
  proof (cases "builtin_module s = None \<and> IsLocalSpecifier s")
    case True
    have "\<exists>n y. LoadLocalModule n w s l = Some y"
      by (rule load_terminates [OF finite]) (use True run_terminates [OF finite less] in auto)
    then obtain n y where "LoadLocalModule n w s l = Some y" by blast
    with True have "require (Suc n) w s l = Some y" by simp
    then show ?thesis by blast
  next
    case False
    then have "require (Suc 0) w s l \<noteq> None" by (auto split: option.splits)
    then show ?thesis by blast
  qed
qed

lemma demo_disk: "finite {f. ReadFileText (w_os demo_world) (w_fs demo_world) f \<noteq> None}"
proof -
  have "finite (dom demo_files)" by (simp add: demo_files_def)
  moreover have "{f. ReadFileText (w_os demo_world) (w_fs demo_world) f \<noteq> None} \<subseteq> dom demo_files"
    by (auto simp: demo_world_def ReadFileText_def mem_os_def)
  ultimately show "finite {f. ReadFileText (w_os demo_world) (w_fs demo_world) f \<noteq> None}" by (rule finite_subset [rotated])
qed

text \<open>
  C30. require always returns on a disk with finitely many readable files: there is a depth of nested
  calls from which on the result does not change, however the modules load each other or fail; so neither a cycle nor a failing module makes require run for ever.
\<close>
theorem require_terminates:
  assumes "finite {f. ReadFileText (w_os w) (w_fs w) f \<noteq> None}"
  shows "\<exists>n y. \<forall>n' \<ge> n. RequireCallback n' w args l = Some y"
proof (cases "length args < 1 \<or> \<not> IsString (args ! 0)")
  case True
  then show ?thesis by (simp add: RequireCallback_def)
next
  case False
  obtain n y where "require n w (string_of (args ! 0)) l = Some y"
    using require_ends [OF assms] by blast
  then have "require n' w (string_of (args ! 0)) l = Some y" if "n \<le> n'" for n'
    using fuel_le(3) [OF that] by (cases y) blast
  then have "RequireCallback n' w args l = Some y" if "n \<le> n'" for n'
    using that False by (simp add: RequireCallback_def)
  then show ?thesis by blast
qed

theorem require_terminates_witness:
  "\<exists>n y. \<forall>n' \<ge> n. RequireCallback n' demo_world [JStr ''./a''] demo_loader = Some y"
  using require_terminates [OF demo_disk] by blast

end
