(* ===== verification/KodeScopes.thy ===== *)
theory KodeScopes
  imports V8Helpers
begin

text \<open>
  The scopes and tasks of the script in \<open>InstallKodeRuntimeBootstrap\<close> (\<open>src/v8/kode_host.cc\<close>). Every
  reaction of a promise chain (\<open>then\<close>, \<open>catch\<close>, \<open>finally\<close>) is one step, so calls of the script and
  reactions of different chains interleave as the microtask queue and the event loop let them.
\<close>

section \<open>Scopes and tasks of the bootstrap script\<close>

text \<open>\<open>runtimeError(code, message, operation)\<close>.\<close>

datatype js_error = JsError string string string

datatype settlement = Succeeds jsval | Fails jsval

text \<open>
  A chain \<open>Promise.resolve().then(f).catch(..).finally(..)\<close>: \<open>f\<close> is queued; it was called and what it
  returned is pending; that has settled; the \<open>catch\<close> reaction has run (scopes have none); the \<open>finally\<close>
  reaction has run, and the promise that the call returned settles.
\<close>

datatype phase =
    Queued
  | Called
  | Settled settlement
  | Handled settlement
  | Finished settlement

record scope_state =
  failed :: bool
  body :: phase

record task_chain =
  owner :: nat
  chain :: phase

record kode_state =
  activeScopes :: int
  activeTasks :: int
  scopes :: "scope_state list"
  tasks :: "task_chain list"

definition kode_init :: kode_state where
  "kode_init = \<lparr> activeScopes = 0, activeTasks = 0, scopes = [], tasks = [] \<rparr>"

definition set_body :: "nat \<Rightarrow> phase \<Rightarrow> kode_state \<Rightarrow> kode_state" where
  "set_body i p s = s\<lparr>scopes := (scopes s)[i := (scopes s ! i)\<lparr>body := p\<rparr>]\<rparr>"

definition set_chain :: "nat \<Rightarrow> phase \<Rightarrow> kode_state \<Rightarrow> kode_state" where
  "set_chain t p s = s\<lparr>tasks := (tasks s)[t := (tasks s ! t)\<lparr>chain := p\<rparr>]\<rparr>"

text \<open>\<open>Kode.scope(fn)\<close>: throws, or counts a scope whose function is queued.\<close>

definition scope_call :: "bool \<Rightarrow> kode_state \<Rightarrow> js_error + kode_state" where
  "scope_call is_fn s =
     (if \<not> is_fn then Inl (JsError ''EINVAL'' ''Kode.scope requires a function'' ''Kode.scope'')
      else Inr (s\<lparr>activeScopes := activeScopes s + 1,
                 scopes := scopes s @ [\<lparr> failed = False, body = Queued \<rparr>]\<rparr>))"

definition scope_finally :: "nat \<Rightarrow> settlement \<Rightarrow> kode_state \<Rightarrow> kode_state" where
  "scope_finally i r s = set_body i (Finished r) (s\<lparr>activeScopes := activeScopes s - 1\<rparr>)"

text \<open>\<open>scope.async(taskFn)\<close>: throws, returns a rejected promise, or starts a chain.\<close>

datatype async_result = AsyncThrow js_error | AsyncReject js_error | AsyncStarted kode_state

definition scope_async :: "nat \<Rightarrow> bool \<Rightarrow> kode_state \<Rightarrow> async_result" where
  "scope_async i is_fn s =
     (if \<not> is_fn then AsyncThrow (JsError ''EINVAL'' ''scope.async requires a function'' ''scope.async'')
      else if failed (scopes s ! i) then
        AsyncReject (JsError ''ECANCELED'' ''Scope already failed'' ''scope.async'')
      else AsyncStarted (s\<lparr>activeTasks := activeTasks s + 1,
                          tasks := tasks s @ [\<lparr> owner = i, chain = Queued \<rparr>]\<rparr>))"

definition task_catch :: "nat \<Rightarrow> settlement \<Rightarrow> kode_state \<Rightarrow> kode_state" where
  "task_catch t r s =
     (let s1 = (case r of
                  Succeeds v \<Rightarrow> s
                | Fails err \<Rightarrow>
                    (let i = owner (tasks s ! t)
                     in s\<lparr>scopes := (scopes s)[i := (scopes s ! i)\<lparr>failed := True\<rparr>]\<rparr>))
      in set_chain t (Handled r) s1)"

definition task_finally :: "nat \<Rightarrow> settlement \<Rightarrow> kode_state \<Rightarrow> kode_state" where
  "task_finally t r s = set_chain t (Finished r) (s\<lparr>activeTasks := activeTasks s - 1\<rparr>)"

definition activeOperations :: "kode_state \<Rightarrow> int \<times> int" where
  "activeOperations s = (activeScopes s, activeTasks s)"

text \<open>
  A scope object reaches the script when its function is called, so \<open>scope.async\<close> needs a scope that
  is no longer queued; nothing keeps the script from using it after the scope has finished.
\<close>

datatype kode_event =
    CallScope bool                \<comment> \<open>\<open>Kode.scope(fn)\<close>: is \<open>fn\<close> a function?\<close>
  | BeginScope nat
  | SettleScope nat settlement    \<comment> \<open>what \<open>fn\<close> returned settles, or \<open>fn\<close> throws\<close>
  | FinallyScope nat
  | CallAsync nat bool            \<comment> \<open>\<open>scope.async(f)\<close>: the scope, is \<open>f\<close> a function?\<close>
  | BeginTask nat
  | SettleTask nat settlement
  | CatchTask nat
  | FinallyTask nat

inductive kode_step :: "kode_state \<Rightarrow> kode_event \<Rightarrow> kode_state \<Rightarrow> bool" where
  scope_bad: "scope_call f s = Inl e \<Longrightarrow> kode_step s (CallScope f) s"
| scope_open: "scope_call f s = Inr t \<Longrightarrow> kode_step s (CallScope f) t"
| scope_begin: "i < length (scopes s) \<Longrightarrow> body (scopes s ! i) = Queued \<Longrightarrow>
    kode_step s (BeginScope i) (set_body i Called s)"
| scope_settle: "i < length (scopes s) \<Longrightarrow> body (scopes s ! i) = Called \<Longrightarrow>
    kode_step s (SettleScope i r) (set_body i (Settled r) s)"
| scope_end: "i < length (scopes s) \<Longrightarrow> body (scopes s ! i) = Settled r \<Longrightarrow>
    kode_step s (FinallyScope i) (scope_finally i r s)"
| async_throw: "i < length (scopes s) \<Longrightarrow> body (scopes s ! i) \<noteq> Queued \<Longrightarrow>
    scope_async i f s = AsyncThrow e \<Longrightarrow> kode_step s (CallAsync i f) s"
| async_reject: "i < length (scopes s) \<Longrightarrow> body (scopes s ! i) \<noteq> Queued \<Longrightarrow>
    scope_async i f s = AsyncReject e \<Longrightarrow> kode_step s (CallAsync i f) s"
| async_start: "i < length (scopes s) \<Longrightarrow> body (scopes s ! i) \<noteq> Queued \<Longrightarrow>
    scope_async i f s = AsyncStarted t \<Longrightarrow> kode_step s (CallAsync i f) t"
| task_begin: "t < length (tasks s) \<Longrightarrow> chain (tasks s ! t) = Queued \<Longrightarrow>
    kode_step s (BeginTask t) (set_chain t Called s)"
| task_settle: "t < length (tasks s) \<Longrightarrow> chain (tasks s ! t) = Called \<Longrightarrow>
    kode_step s (SettleTask t r) (set_chain t (Settled r) s)"
| task_caught: "t < length (tasks s) \<Longrightarrow> chain (tasks s ! t) = Settled r \<Longrightarrow>
    kode_step s (CatchTask t) (task_catch t r s)"
| task_end: "t < length (tasks s) \<Longrightarrow> chain (tasks s ! t) = Handled r \<Longrightarrow>
    kode_step s (FinallyTask t) (task_finally t r s)"

lemmas kode_ops = scope_call_def scope_async_def scope_finally_def task_catch_def task_finally_def
  set_body_def set_chain_def

section \<open>The counters\<close>

fun is_open :: "phase \<Rightarrow> bool" where
  "is_open (Finished r) = False"
| "is_open p = True"

fun has_failed :: "phase \<Rightarrow> bool" where
  "has_failed (Handled (Fails e)) = True"
| "has_failed (Finished (Fails e)) = True"
| "has_failed p = False"

definition kode_inv :: "kode_state \<Rightarrow> bool" where
  "kode_inv s \<longleftrightarrow>
     activeScopes s = int (length (filter (\<lambda>c. is_open (body c)) (scopes s)))
   \<and> activeTasks s = int (length (filter (\<lambda>c. is_open (chain c)) (tasks s)))
   \<and> (\<forall>c \<in> set (scopes s). \<forall>r. body c \<noteq> Handled r)
   \<and> (\<forall>c \<in> set (tasks s). owner c < length (scopes s))
   \<and> (\<forall>i < length (scopes s). failed (scopes s ! i) \<longleftrightarrow> (\<exists>c \<in> set (tasks s). owner c = i \<and> has_failed (chain c)))"

lemma filter_update:
  assumes "i < length xs"
  shows "int (length (filter P (xs[i := x]))) =
    int (length (filter P xs)) - (if P (xs ! i) then 1 else 0) + (if P x then 1 else 0)"
proof -
  have "filter P xs = filter P (take i xs @ xs ! i # drop (Suc i) xs)" using id_take_nth_drop [OF assms] by simp
  then show ?thesis by (simp add: upd_conv_take_nth_drop [OF assms])
qed

lemma ex_update:
  assumes "i < length xs" "P (xs ! i) \<Longrightarrow> P x"
  shows "(\<exists>c \<in> set (xs[i := x]). P c) \<longleftrightarrow> (\<exists>c \<in> set xs. P c) \<or> P x"
proof -
  have "set xs = set (take i xs @ xs ! i # drop (Suc i) xs)" using id_take_nth_drop [OF assms(1)] by simp
  then show ?thesis using assms(2) by (auto simp: upd_conv_take_nth_drop [OF assms(1)])
qed

text \<open>One lemma for the steps that move a scope on, one for the steps that move a task on.\<close>

lemma kode_inv_body:
  assumes "kode_inv s" "i < length (scopes s)" "is_open (body (scopes s ! i))"
    "d = (if is_open p then 0 else 1)" "\<And>r. p \<noteq> Handled r"
  shows "kode_inv (set_body i p (s\<lparr>activeScopes := activeScopes s - d\<rparr>))"
proof -
  let ?ss = "(scopes s)[i := (scopes s ! i)\<lparr>body := p\<rparr>]"
  have "failed (?ss ! j) = failed (scopes s ! j)" if "j < length (scopes s)" for j
    using that by (cases "j = i") simp_all
  moreover have "body c \<noteq> Handled r" if "c \<in> set ?ss" for c r
    using that assms(1,5) set_update_subset_insert [of "scopes s" i] by (fastforce simp: kode_inv_def)
  ultimately show ?thesis using assms by (simp add: kode_inv_def set_body_def filter_update)
qed

lemma kode_inv_chain:
  assumes "kode_inv s" "t < length (tasks s)" "is_open (chain (tasks s ! t))"
    "has_failed p = has_failed (chain (tasks s ! t))" "d = (if is_open p then 0 else 1)"
  shows "kode_inv (set_chain t p (s\<lparr>activeTasks := activeTasks s - d\<rparr>))"
proof -
  let ?c = "(tasks s ! t)\<lparr>chain := p\<rparr>" and ?ts = "(tasks s)[t := (tasks s ! t)\<lparr>chain := p\<rparr>]"
  have t: "tasks s ! t \<in> set (tasks s)" using assms(2) by simp
  have "(\<exists>c \<in> set ?ts. owner c = i \<and> has_failed (chain c)) \<longleftrightarrow> (\<exists>c \<in> set (tasks s). owner c = i \<and> has_failed (chain c))" for i
    using ex_update [OF assms(2), of "\<lambda>c. owner c = i \<and> has_failed (chain c)" ?c] assms(4) t by auto
  moreover have "owner c < length (scopes s)" if "c \<in> set ?ts" for c
    using that assms(1) t set_update_subset_insert [of "tasks s" t ?c] by (auto simp: kode_inv_def)
  ultimately show ?thesis using assms by (simp add: kode_inv_def set_chain_def filter_update)
qed

lemma kode_inv_failure:
  assumes "kode_inv s" "t < length (tasks s)" "chain (tasks s ! t) = Settled (Fails e)"
  shows "kode_inv (task_catch t (Fails e) s)"
proof -
  let ?i = "owner (tasks s ! t)" and ?c = "(tasks s ! t)\<lparr>chain := Handled (Fails e)\<rparr>"
  let ?ts = "(tasks s)[t := ?c]" and ?ss = "(scopes s)[?i := (scopes s ! ?i)\<lparr>failed := True\<rparr>]"
  have t: "tasks s ! t \<in> set (tasks s)" using assms(2) by simp
  then have i: "?i < length (scopes s)" using assms(1) by (simp add: kode_inv_def)
  have "(\<exists>c \<in> set ?ts. owner c = j \<and> has_failed (chain c))
      \<longleftrightarrow> (\<exists>c \<in> set (tasks s). owner c = j \<and> has_failed (chain c)) \<or> j = ?i" for j
    using ex_update [OF assms(2), of "\<lambda>c. owner c = j \<and> has_failed (chain c)" ?c] assms(3) by auto
  moreover have "failed (?ss ! j) \<longleftrightarrow> failed (scopes s ! j) \<or> j = ?i" if "j < length (scopes s)" for j
    using that by (cases "j = ?i") simp_all
  moreover have "owner c < length (scopes s)" if "c \<in> set ?ts" for c
    using that assms(1) t set_update_subset_insert [of "tasks s" t ?c] by (auto simp: kode_inv_def)
  moreover have "body c \<noteq> Handled r" if "c \<in> set ?ss" for c r
    using that assms(1) i set_update_subset_insert [of "scopes s" ?i] by (fastforce simp: kode_inv_def)
  ultimately show ?thesis using assms i
    by (simp add: kode_inv_def task_catch_def set_chain_def filter_update Let_def)
qed

lemma kode_inv_step:
  assumes "kode_inv s" "kode_step s e s'"
  shows "kode_inv s'"
  using assms(2)
proof (cases rule: kode_step.cases)
  case (scope_open f)
  then show ?thesis using assms(1) by (auto simp: kode_inv_def scope_call_def nth_append less_Suc_eq split: if_splits)
next
  case (scope_begin i)
  then show ?thesis using kode_inv_body [of s i 0 Called] assms(1) by simp
next
  case (scope_settle i r)
  then show ?thesis using kode_inv_body [of s i 0 "Settled r"] assms(1) by simp
next
  case (scope_end i r)
  then show ?thesis using kode_inv_body [of s i 1 "Finished r"] assms(1) by (simp add: scope_finally_def)
next
  case (async_start i f)
  then show ?thesis using assms(1) by (auto simp: kode_inv_def scope_async_def split: if_splits)
next
  case (task_begin t)
  then show ?thesis using kode_inv_chain [of s t Called 0] assms(1) by simp
next
  case (task_settle t r)
  then show ?thesis using kode_inv_chain [of s t "Settled r" 0] assms(1) by simp
next
  case (task_caught t r)
  then show ?thesis using kode_inv_chain [of s t "Handled r" 0] kode_inv_failure [of s t] assms(1)
    by (cases r) (simp_all add: task_catch_def)
next
  case (task_end t r)
  then show ?thesis using kode_inv_chain [of s t "Finished r" 1] assms(1)
    by (cases r) (simp_all add: task_finally_def)
qed (use assms(1) in simp_all)

lemma kode_inv_init: "kode_inv kode_init"
  by (simp add: kode_inv_def kode_init_def)

section \<open>Chains come to an end\<close>

fun reactions_left :: "phase \<Rightarrow> nat" where
  "reactions_left Queued = 4"
| "reactions_left Called = 3"
| "reactions_left (Settled r) = 2"
| "reactions_left (Handled r) = 1"
| "reactions_left (Finished r) = 0"

definition chain_backlog :: "kode_state \<Rightarrow> nat" where
  "chain_backlog s = (\<Sum>c\<leftarrow>scopes s. reactions_left (body c)) + (\<Sum>c\<leftarrow>tasks s. reactions_left (chain c))"

definition is_reaction :: "kode_event \<Rightarrow> bool" where
  "is_reaction e = (case e of CallScope f \<Rightarrow> False | CallAsync i f \<Rightarrow> False | _ \<Rightarrow> True)"

lemma sum_update_less:
  fixes f :: "'a \<Rightarrow> nat"
  assumes "i < length xs" "f x < f (xs ! i)"
  shows "(\<Sum>c\<leftarrow>xs[i := x]. f c) < (\<Sum>c\<leftarrow>xs. f c)"
proof -
  have "(\<Sum>c\<leftarrow>xs. f c) = (\<Sum>c\<leftarrow>take i xs @ xs ! i # drop (Suc i) xs. f c)"
    using id_take_nth_drop [OF assms(1)] by simp
  then show ?thesis using assms(2) by (simp add: upd_conv_take_nth_drop [OF assms(1)])
qed

lemma backlog_body:
  "i < length (scopes s) \<Longrightarrow> reactions_left p < reactions_left (body (scopes s ! i)) \<Longrightarrow>
     chain_backlog (set_body i p s) < chain_backlog s"
  by (simp add: chain_backlog_def set_body_def sum_update_less)

lemma backlog_chain:
  "t < length (tasks s) \<Longrightarrow> reactions_left p < reactions_left (chain (tasks s ! t)) \<Longrightarrow>
     chain_backlog (set_chain t p s) < chain_backlog s"
  by (simp add: chain_backlog_def set_chain_def sum_update_less)

lemma backlog_fields:
  "chain_backlog (s\<lparr>activeScopes := a\<rparr>) = chain_backlog s" "chain_backlog (s\<lparr>activeTasks := a\<rparr>) = chain_backlog s"
  "chain_backlog (s\<lparr>scopes := (scopes s)[i := (scopes s ! i)\<lparr>failed := True\<rparr>]\<rparr>) = chain_backlog s"
proof -
  have "map (\<lambda>c. reactions_left (body c)) ((scopes s)[i := (scopes s ! i)\<lparr>failed := True\<rparr>])
      = map (\<lambda>c. reactions_left (body c)) (scopes s)"
    by (cases "i < length (scopes s)") (simp_all add: map_update list_update_same_conv list_update_beyond not_less)
  then show "chain_backlog (s\<lparr>scopes := (scopes s)[i := (scopes s ! i)\<lparr>failed := True\<rparr>]\<rparr>) = chain_backlog s"
    by (simp add: chain_backlog_def)
qed (simp_all add: chain_backlog_def)

lemma reaction_decreases:
  assumes "kode_step s e s'" "is_reaction e"
  shows "chain_backlog s' < chain_backlog s"
  using assms(1)
proof (cases rule: kode_step.cases)
  case (scope_end i r)
  then show ?thesis using backlog_body [of i "s\<lparr>activeScopes := activeScopes s - 1\<rparr>" "Finished r"]
    by (simp add: scope_finally_def backlog_fields)
next
  case (task_caught t r)
  have "chain_backlog (set_chain t (Handled r) u) < chain_backlog s"
    if "tasks u = tasks s" "chain_backlog u = chain_backlog s" for u
    using that task_caught backlog_chain [of t u "Handled r"] by simp
  with task_caught show ?thesis by (simp add: task_catch_def backlog_fields Let_def split: settlement.split)
next
  case (task_end t r)
  then show ?thesis using backlog_chain [of t "s\<lparr>activeTasks := activeTasks s - 1\<rparr>" "Finished r"]
    by (simp add: task_finally_def backlog_fields)
qed (use assms(2) in \<open>auto simp: is_reaction_def intro: backlog_body backlog_chain\<close>)

lemma open_scope_reacts:
  assumes "i < length (scopes s)" "is_open (body (scopes s ! i))" "\<forall>r. body (scopes s ! i) \<noteq> Handled r"
  shows "\<exists>e s'. is_reaction e \<and> kode_step s e s'"
proof (cases "body (scopes s ! i)")
  case Queued
  show ?thesis by (rule exI [of _ "BeginScope i"], rule exI) (auto simp: is_reaction_def intro: scope_begin assms Queued)
next
  case Called
  show ?thesis by (rule exI [of _ "SettleScope i (Succeeds JUndefined)"], rule exI)
    (auto simp: is_reaction_def intro: scope_settle assms Called)
next
  case (Settled r)
  show ?thesis by (rule exI [of _ "FinallyScope i"], rule exI) (auto simp: is_reaction_def intro: scope_end assms Settled)
qed (use assms in auto)

lemma open_task_reacts:
  assumes "t < length (tasks s)" "is_open (chain (tasks s ! t))"
  shows "\<exists>e s'. is_reaction e \<and> kode_step s e s'"
proof (cases "chain (tasks s ! t)")
  case Queued
  show ?thesis by (rule exI [of _ "BeginTask t"], rule exI) (auto simp: is_reaction_def intro: task_begin assms Queued)
next
  case Called
  show ?thesis by (rule exI [of _ "SettleTask t (Succeeds JUndefined)"], rule exI)
    (auto simp: is_reaction_def intro: task_settle assms Called)
next
  case (Settled r)
  show ?thesis by (rule exI [of _ "CatchTask t"], rule exI) (auto simp: is_reaction_def intro: task_caught assms Settled)
next
  case (Handled r)
  show ?thesis by (rule exI [of _ "FinallyTask t"], rule exI) (auto simp: is_reaction_def intro: task_end assms Handled)
qed (use assms in auto)

lemma reaction_enabled:
  assumes "kode_inv s" "0 < chain_backlog s"
  shows "\<exists>e s'. is_reaction e \<and> kode_step s e s'"
proof -
  have pos: "is_open p" if "0 < reactions_left p" for p using that by (cases p) auto
  have "chain_backlog s = 0 \<longleftrightarrow> (\<forall>c \<in> set (scopes s). reactions_left (body c) = 0)
      \<and> (\<forall>c \<in> set (tasks s). reactions_left (chain c) = 0)"
    by (simp add: chain_backlog_def sum_list_eq_0_iff)
  then consider c where "c \<in> set (scopes s)" "is_open (body c)" | c where "c \<in> set (tasks s)" "is_open (chain c)"
    using pos assms(2) by (metis not_gr_zero)
  then show ?thesis
  proof cases
    case 1
    then obtain i where "i < length (scopes s)" "scopes s ! i = c" by (metis in_set_conv_nth)
    with 1 assms(1) show ?thesis by (intro open_scope_reacts) (auto simp: kode_inv_def)
  next
    case 2
    then obtain t where "t < length (tasks s)" "tasks s ! t = c" by (metis in_set_conv_nth)
    with 2 show ?thesis by (intro open_task_reacts) auto
  qed
qed

interpretation kode_sys: draining_system kode_step kode_inv is_reaction chain_backlog
  by unfold_locales (erule (1) kode_inv_step, erule (1) reaction_decreases, erule (1) reaction_enabled)

lemma no_backlog_closed:
  assumes "chain_backlog s = 0"
  shows "filter (\<lambda>c. is_open (body c)) (scopes s) = []" "filter (\<lambda>c. is_open (chain c)) (tasks s) = []"
proof -
  have "\<not> is_open p" if "reactions_left p = 0" for p using that by (cases p) auto
  then show "filter (\<lambda>c. is_open (body c)) (scopes s) = []" "filter (\<lambda>c. is_open (chain c)) (tasks s) = []"
    using assms by (auto simp: chain_backlog_def filter_empty_conv sum_list_eq_0_iff)
qed

text \<open>
  C28. Kode.activeOperations is exact and comes back to zero: in every interleaving of calls and
  reactions the counters are the numbers of scopes and tasks whose promise has not settled, a
  scope is failed exactly when one of its tasks has failed, the reactions that are left are
  bounded, and from every such state they can run, after which both counters are zero.
\<close>
theorem active_operations_exact:
  assumes "run kode_step kode_init es s"
  shows "activeOperations s = (int (length (filter (\<lambda>c. is_open (body c)) (scopes s))),
                              int (length (filter (\<lambda>c. is_open (chain c)) (tasks s))))
    \<and> (\<forall>i < length (scopes s). failed (scopes s ! i)
          \<longleftrightarrow> (\<exists>c \<in> set (tasks s). owner c = i \<and> has_failed (chain c)))
    \<and> (\<forall>fs t. run kode_step s fs t \<and> (\<forall>e \<in> set fs. is_reaction e) \<longrightarrow> length fs \<le> chain_backlog s)
    \<and> (\<exists>fs t. run kode_step s fs t \<and> (\<forall>e \<in> set fs. is_reaction e) \<and> activeOperations t = (0, 0))"
proof -
  have inv: "kode_inv s" using kode_sys.inv_run [OF assms kode_inv_init] .
  obtain fs t where t: "run kode_step s fs t" "\<forall>e \<in> set fs. is_reaction e" "chain_backlog t = 0"
    using kode_sys.drains [OF inv] by blast
  have "kode_inv t" using kode_sys.inv_run [OF t(1) inv] .
  then have "activeOperations t = (0, 0)"
    using no_backlog_closed [OF t(3)] by (simp add: activeOperations_def kode_inv_def)
  moreover have "length gs \<le> chain_backlog s" if "run kode_step s gs u" "\<forall>e \<in> set gs. is_reaction e" for gs u
    using kode_sys.internal_run_bounded [OF that(1) inv that(2)] by simp
  ultimately show ?thesis using inv t(1,2) unfolding kode_inv_def activeOperations_def by blast
qed

text \<open>The run of a script with one scope and two tasks, of which the first one fails.\<close>

definition scope_script :: "kode_event list" where
  "scope_script = [CallScope True, BeginScope 0, CallAsync 0 True, CallAsync 0 True, BeginTask 0, BeginTask 1,
     SettleTask 0 (Fails JNull), CatchTask 0, FinallyTask 0, SettleScope 0 (Succeeds JNull), FinallyScope 0]"

definition after_script :: kode_state where
  "after_script = \<lparr> activeScopes = 0, activeTasks = 1,
     scopes = [\<lparr> failed = True, body = Finished (Succeeds JNull) \<rparr>],
     tasks = [\<lparr> owner = 0, chain = Finished (Fails JNull) \<rparr>, \<lparr> owner = 0, chain = Called \<rparr>] \<rparr>"

lemma scope_script_run: "run kode_step kode_init scope_script after_script"
  unfolding scope_script_def after_script_def kode_init_def
  by (rule run_Cons, rule scope_open, simp add: scope_call_def, rule run_Cons, rule scope_begin, simp, simp,
      rule run_Cons, rule async_start, simp add: set_body_def, simp add: set_body_def,
      simp add: scope_async_def set_body_def, rule run_Cons, rule async_start, simp, simp,
      simp add: scope_async_def, rule run_Cons, rule task_begin, simp, simp,
      rule run_Cons, rule task_begin, simp add: set_chain_def, simp add: set_chain_def,
      rule run_Cons, rule task_settle, simp add: set_chain_def, simp add: set_chain_def,
      rule run_Cons, rule task_caught, simp add: set_chain_def, simp add: set_chain_def,
      rule run_Cons, rule task_end, simp add: set_chain_def task_catch_def, simp add: set_chain_def task_catch_def,
      rule run_Cons, rule scope_settle, simp add: kode_ops Let_def, simp add: kode_ops Let_def,
      rule run_Cons, rule scope_end, simp add: kode_ops Let_def, simp add: kode_ops Let_def)
     (simp add: kode_ops Let_def, rule run_Nil)

theorem active_operations_exact_witness:
  "\<exists>fs t. activeOperations after_script = (0, 1) \<and> failed (scopes after_script ! 0)
     \<and> run kode_step after_script fs t \<and> (\<forall>e \<in> set fs. is_reaction e) \<and> activeOperations t = (0, 0)"
proof -
  note t = active_operations_exact [OF scope_script_run]
  then obtain fs u where "run kode_step after_script fs u" "\<forall>e \<in> set fs. is_reaction e" "activeOperations u = (0, 0)"
    by blast
  moreover have "activeOperations after_script = (0, 1)" using t by (simp add: after_script_def)
  moreover have "failed (scopes after_script ! 0)" using t by (simp add: after_script_def)
  ultimately show ?thesis by (intro exI conjI)
qed

text \<open>
  The design document says that a scope does not finish before its tasks have finished or were cancelled,
  and that a failed task cancels its siblings. The run above ends with a scope that has
  finished, and succeeded, while its second task, a sibling of the failed one, still runs; and
  that task can go on to succeed.
\<close>
theorem scope_outlived_by_task:
  "\<exists>es s. run kode_step kode_init es s \<and> (\<exists>r. body (scopes s ! 0) = Finished r) \<and> failed (scopes s ! 0)
     \<and> owner (tasks s ! 1) = 0 \<and> chain (tasks s ! 1) = Called
     \<and> (\<exists>t. kode_step s (SettleTask 1 (Succeeds v)) t \<and> chain (tasks t ! 1) = Settled (Succeeds v))"
proof -
  have "kode_step after_script (SettleTask 1 (Succeeds v)) (set_chain 1 (Settled (Succeeds v)) after_script)"
    by (rule task_settle) (simp_all add: after_script_def)
  moreover have "chain (tasks (set_chain 1 (Settled (Succeeds v)) after_script) ! 1) = Settled (Succeeds v)"
    by (simp add: set_chain_def after_script_def)
  ultimately have e: "\<exists>t. kode_step after_script (SettleTask 1 (Succeeds v)) t \<and> chain (tasks t ! 1) = Settled (Succeeds v)"
    by blast
  show ?thesis
    by (rule exI [of _ scope_script], rule exI [of _ after_script], intro conjI, rule scope_script_run)
       (simp_all add: after_script_def e [unfolded after_script_def One_nat_def])
qed

section \<open>A failed scope\<close>

lemma failed_kept: "i < length xs \<Longrightarrow> failed (xs ! i) \<Longrightarrow> failed (xs[j := (xs ! j)\<lparr>failed := True\<rparr>] ! i)"
  by (cases "i = j") simp_all

lemma failed_mono:
  assumes "kode_step s e t" "i < length (scopes s)" "failed (scopes s ! i)"
  shows "i < length (scopes t) \<and> failed (scopes t ! i)"
  using assms
  by (cases rule: kode_step.cases)
     (auto simp: kode_ops Let_def nth_list_update nth_append intro: failed_kept split: if_splits settlement.splits)

lemma failed_run:
  "run kode_step s es t \<Longrightarrow> i < length (scopes s) \<Longrightarrow> failed (scopes s ! i) \<Longrightarrow> failed (scopes t ! i)"
  by (induction rule: run.induct) (auto dest: failed_mono)

text \<open>
  C37. A task failure fails its scope for good: after the catch reaction of a failed task,
  whatever happens, scope.async on its scope rejects with ECANCELED and starts nothing.
\<close>
theorem failed_scope_cancels:
  assumes "run kode_step kode_init es s" "t < length (tasks s)" "chain (tasks s ! t) = Settled (Fails err)"
    "run kode_step (task_catch t (Fails err) s) fs u"
  shows "scope_async (owner (tasks s ! t)) True u
    = AsyncReject (JsError ''ECANCELED'' ''Scope already failed'' ''scope.async'')"
proof -
  have "kode_inv s" using kode_sys.inv_run [OF assms(1) kode_inv_init] .
  then have "owner (tasks s ! t) < length (scopes s)" using assms(2) by (simp add: kode_inv_def)
  then have "failed (scopes u ! owner (tasks s ! t))"
    by (intro failed_run [OF assms(4)]) (simp_all add: task_catch_def set_chain_def Let_def)
  then show ?thesis by (simp add: scope_async_def)
qed

lemma failing_task_run:
  "run kode_step kode_init [CallScope True, BeginScope 0, CallAsync 0 True, BeginTask 0, SettleTask 0 (Fails JNull)]
     \<lparr> activeScopes = 1, activeTasks = 1, scopes = [\<lparr> failed = False, body = Called \<rparr>],
       tasks = [\<lparr> owner = 0, chain = Settled (Fails JNull) \<rparr>] \<rparr>"
  unfolding kode_init_def
  by (rule run_Cons, rule scope_open, simp add: scope_call_def, rule run_Cons, rule scope_begin, simp, simp,
      rule run_Cons, rule async_start, simp add: set_body_def, simp add: set_body_def,
      simp add: scope_async_def set_body_def, rule run_Cons, rule task_begin, simp, simp,
      rule run_Cons, rule task_settle, simp add: set_chain_def, simp add: set_chain_def)
     (simp add: set_chain_def, rule run_Nil)

theorem failed_scope_cancels_witness:
  "scope_async 0 True (task_catch 0 (Fails JNull)
      \<lparr> activeScopes = 1, activeTasks = 1, scopes = [\<lparr> failed = False, body = Called \<rparr>],
        tasks = [\<lparr> owner = 0, chain = Settled (Fails JNull) \<rparr>] \<rparr>)
    = AsyncReject (JsError ''ECANCELED'' ''Scope already failed'' ''scope.async'')"
  using failed_scope_cancels [OF failing_task_run, of 0 JNull "[]"] by (simp add: run_Nil)

end
