(* ===== verification/KodeHost.thy ===== *)
theory KodeHost
  imports Encoding KodeScopes
begin

text \<open>
  \<open>src/v8/kode_host.cc\<close>: the environment snapshot, \<open>Kode.sleep\<close>, the frozen \<open>Kode.args\<close> and
  \<open>Kode.env\<close>, and \<open>Kode.timeout\<close> of the script of \<open>InstallKodeRuntimeBootstrap\<close>; the scopes and tasks
  of that script are in the theory \<open>KodeScopes\<close>.
\<close>

section \<open>The environment\<close>

type_synonym env_snapshot = "string \<rightharpoonup> string"

definition capture_entry :: "string \<Rightarrow> env_snapshot \<Rightarrow> env_snapshot" where
  "capture_entry entry snap =
     (case str_find ''='' entry of
        None \<Rightarrow> snap
      | Some i \<Rightarrow> snap(substr entry 0 i \<mapsto> drop (i + 1) entry))"

definition CaptureEnvironment :: "string list \<Rightarrow> env_snapshot" where
  "CaptureEnvironment environ = fold capture_entry environ Map.empty"

definition EnvGetCallback :: "v8 \<Rightarrow> env_snapshot \<Rightarrow> jsval list \<Rightarrow> outcome" where
  "EnvGetCallback v snap args =
     (case ReadStringArg v args 0 ''Kode.env.get'' of
        Inl err \<Rightarrow> Throw err
      | Inr key \<Rightarrow> (case snap key of None \<Rightarrow> Return JUndefined | Some x \<Rightarrow> Return (V8String v x)))"

definition EnvHasCallback :: "v8 \<Rightarrow> env_snapshot \<Rightarrow> jsval list \<Rightarrow> outcome" where
  "EnvHasCallback v snap args =
     (case ReadStringArg v args 0 ''Kode.env.has'' of
        Inl err \<Rightarrow> Throw err
      | Inr key \<Rightarrow> Return (JBool (snap key \<noteq> None)))"

text \<open>\<open>EnvToObjectCallback\<close> goes through the hash map in some order of its keys.\<close>

definition EnvToObjectCallback :: "v8 \<Rightarrow> env_snapshot \<Rightarrow> string list \<Rightarrow> outcome" where
  "EnvToObjectCallback v snap keys =
     Return (FreezeValue (JHost
       (map (\<lambda>k. (utf8 v (c_str k), V8String v (case snap k of Some x \<Rightarrow> x | None \<Rightarrow> []))) keys) False))"

definition ClearKodeHostState :: env_snapshot where
  "ClearKodeHostState = Map.empty"

section \<open>Kode.sleep\<close>

record sleep_req =
  timer_ms :: "nat option"   \<comment> \<open>\<open>None\<close>: the conversion of the double has no defined value\<close>
  sleep_promise :: promise
  settled :: bool
  timer_closed :: bool

datatype sleep_start =
    SleepThrow jsval
  | SleepSettled promise
  | SleepStarted sleep_req

definition ReadSleepSignal :: "v8 \<Rightarrow> jsval list \<Rightarrow> jsval option" where
  "ReadSleepSignal v args =
     (if length args < 2 \<or> IsUndefined (args ! 1) \<or> IsNull (args ! 1) then None
      else if \<not> IsObject (args ! 1) then None
      else (case Get v (args ! 1) ''signal'' of
              None \<Rightarrow> None
            | Some signal \<Rightarrow> if IsObject signal then Some signal else None))"

definition SignalAborted :: "v8 \<Rightarrow> jsval \<Rightarrow> bool" where
  "SignalAborted v signal =
     (case Get v signal ''aborted'' of None \<Rightarrow> False | Some a \<Rightarrow> BooleanValue a)"

fun num_negative :: "jsnum \<Rightarrow> bool" where
  "num_negative NaN = False"
| "num_negative Infinity = False"
| "num_negative NegInfinity = True"
| "num_negative (Fin r) = (r < 0)"

fun to_uint64 :: "jsnum \<Rightarrow> nat option" where
  "to_uint64 (Fin r) = (if 0 \<le> r \<and> r < 2 ^ 64 then Some (nat \<lfloor>r\<rfloor>) else None)"
| "to_uint64 n = None"

definition sleep_error :: "v8 \<Rightarrow> jsval" where
  "sleep_error v = CreateKodeError v ''EINVAL'' ''Kode.sleep requires a non-negative number'' ''Kode.sleep'' []"

definition SleepCallback :: "v8 \<Rightarrow> bool \<Rightarrow> jsval list \<Rightarrow> sleep_start" where
  "SleepCallback v has_loop args =
     (if length args < 1 then SleepThrow (sleep_error v)
      else (case args ! 0 of
              JNum ms \<Rightarrow>
                if num_negative ms then SleepThrow (sleep_error v)
                else if \<not> has_loop then
                  SleepThrow (CreateKodeError v ''EINTERNAL'' ''Runtime loop is not available'' ''Kode.sleep'' [])
                else if (case ReadSleepSignal v args of None \<Rightarrow> False | Some s \<Rightarrow> SignalAborted v s) then
                  SleepSettled (RejectPromise Pending
                    (CreateKodeError v ''ECANCELED'' ''Sleep cancelled'' ''Kode.sleep'' []))
                else SleepStarted \<lparr> timer_ms = to_uint64 ms, sleep_promise = Pending, settled = False,
                                   timer_closed = False \<rparr>
            | _ \<Rightarrow> SleepThrow (sleep_error v)))"

definition SleepTimerCallback :: "sleep_req \<Rightarrow> sleep_req" where
  "SleepTimerCallback req =
     (let r = (if \<not> settled req
               then req\<lparr>settled := True, sleep_promise := ResolvePromise (sleep_promise req) JUndefined\<rparr>
               else req)
      in r\<lparr>timer_closed := True\<rparr>)"

section \<open>The Kode object\<close>

record runtime_options =
  executable :: string
  script :: string
  user_args :: "string list"

definition args_object :: "v8 \<Rightarrow> runtime_options \<Rightarrow> jsval" where
  "args_object v opts = FreezeValue (JHost
     [(''executable'', V8String v (executable opts)),
      (''script'', if script opts = [] then JUndefined else V8String v (script opts)),
      (''values'', FreezeValue (JArr (map (V8String v) (user_args opts)) False))] False)"

definition env_object :: jsval where
  "env_object = FreezeValue (JHost
     [(''get'', JFun ''EnvGetCallback''), (''has'', JFun ''EnvHasCallback''),
      (''toObject'', JFun ''EnvToObjectCallback'')] False)"

text \<open>
  \<open>InstallKodeHostApis\<close> on the global object: \<open>None\<close> when it returns false. The results of V8's
  calls that can fail are arguments.
\<close>

definition InstallKodeHostApis ::
  "v8 \<Rightarrow> bool \<Rightarrow> bool \<times> bool \<times> bool \<times> bool \<Rightarrow> bool \<Rightarrow> jsval \<Rightarrow> runtime_options \<Rightarrow> jsval option" where
  "InstallKodeHostApis v text_ok globals_ok define_ok global opts =
     (case Get v global ''Kode'' of
        None \<Rightarrow> None
      | Some kode \<Rightarrow>
          if \<not> IsObject kode then None
          else
            (let k1 = SetProp (SetProp (SetProp kode ''env'' env_object) ''args'' (args_object v opts))
                        ''sleep'' (JFun ''SleepCallback'');
                 (k2, ok2) = InstallKodeTextApi text_ok k1
             in if \<not> ok2 then None
                else (case InstallTextEncodingGlobals globals_ok global of
                        (g, ok3) \<Rightarrow>
                          if \<not> ok3 \<or> \<not> define_ok then None
                          else Some (SetProp g ''Kode'' (FreezeValue k2)))))"

section \<open>Kode.timeout\<close>

record abort_signal =
  aborted :: bool
  reason :: "js_error option"
  onabort_calls :: nat
  has_onabort :: bool

definition new_signal :: abort_signal where
  "new_signal = \<lparr> aborted = False, reason = None, onabort_calls = 0, has_onabort = False \<rparr>"

definition abort :: "abort_signal \<Rightarrow> abort_signal" where
  "abort s =
     (if aborted s then s
      else (let s1 = s\<lparr>aborted := True,
                      reason := Some (JsError ''ECANCELED'' ''Operation cancelled'' ''Kode.timeout'')\<rparr>
            in if has_onabort s1 then s1\<lparr>onabort_calls := onabort_calls s1 + 1\<rparr> else s1))"

definition timeout :: "jsval \<Rightarrow> js_error + abort_signal" where
  "timeout ms =
     (case ms of
        JNum n \<Rightarrow>
          if num_negative n
          then Inl (JsError ''EINVAL'' ''Kode.timeout requires a non-negative number'' ''Kode.timeout'')
          else Inr (if n = Fin 0 then abort new_signal else new_signal)
      | _ \<Rightarrow> Inl (JsError ''EINVAL'' ''Kode.timeout requires a non-negative number'' ''Kode.timeout''))"

text \<open>What can happen to a signal after \<open>Kode.timeout\<close> returned it: the script sets \<open>onabort\<close> or cancels.\<close>

datatype signal_event = SetOnAbort bool | Cancel

fun signal_apply :: "signal_event \<Rightarrow> abort_signal \<Rightarrow> abort_signal" where
  "signal_apply (SetOnAbort b) s = s\<lparr>has_onabort := b\<rparr>"
| "signal_apply Cancel s = abort s"

lemma signal_aborted:
  "aborted (fold signal_apply es s) \<longleftrightarrow> aborted s \<or> Cancel \<in> set es"
proof (induction es arbitrary: s)
  case (Cons e es)
  then show ?case by (cases e) (auto simp: abort_def Let_def)
qed simp

definition signal_inv :: "abort_signal \<Rightarrow> bool" where
  "signal_inv s \<longleftrightarrow> onabort_calls s \<le> (if aborted s then 1 else 0)
     \<and> reason s = (if aborted s then Some (JsError ''ECANCELED'' ''Operation cancelled'' ''Kode.timeout'') else None)"

lemma signal_inv_apply: "signal_inv s \<Longrightarrow> signal_inv (signal_apply e s)"
  by (cases e) (auto simp: signal_inv_def abort_def Let_def split: if_splits)

lemma signal_inv_fold: "signal_inv s \<Longrightarrow> signal_inv (fold signal_apply es s)"
  by (induction es arbitrary: s) (auto simp: signal_inv_apply)



section \<open>Environment and sleep\<close>

lemma capture_entry_kv: "CHR ''='' \<notin> set k \<Longrightarrow> capture_entry (k @ ''='' @ x) snap = snap(k \<mapsto> x)"
  using str_find_char_append [of "CHR ''=''" k x] by (simp add: capture_entry_def substr_def)

lemma capture_fold:
  "list_all (\<lambda>(k, x). CHR ''='' \<notin> set k) kvs \<Longrightarrow>
     fold capture_entry (map (\<lambda>(k, x). k @ ''='' @ x) kvs) snap = snap ++ map_of (rev kvs)"
proof (induction kvs arbitrary: snap)
  case (Cons kv kvs)
  obtain k x where kv: "kv = (k, x)" by fastforce
  with Cons.prems have "capture_entry (k @ ''='' @ x) snap = snap(k \<mapsto> x)" by (intro capture_entry_kv) simp
  with Cons kv show ?case by (simp add: map_add_def fun_eq_iff split: option.split)
qed simp

text \<open>
  Kode.env reads the process environment: for entries NAME=value (the value may contain more
  equal signs) get returns the value of the name's last entry and has says whether there is one; an
  unknown name reads as undefined.
\<close>
theorem env_get_captured:
  assumes "list_all (\<lambda>(k, x). CHR ''='' \<notin> set k) kvs"
  shows "EnvGetCallback v (CaptureEnvironment (map (\<lambda>(k, x). k @ ''='' @ x) kvs)) [JStr key] =
      Return (case map_of (rev kvs) key of Some x \<Rightarrow> V8String v x | None \<Rightarrow> JUndefined)
    \<and> EnvHasCallback v (CaptureEnvironment (map (\<lambda>(k, x). k @ ''='' @ x) kvs)) [JStr key] =
      Return (JBool (key \<in> fst ` set kvs))"
proof -
  have c: "CaptureEnvironment (map (\<lambda>(k, x). k @ ''='' @ x) kvs) = map_of (rev kvs)"
    using capture_fold [OF assms, of Map.empty] by (simp add: CaptureEnvironment_def)
  have "map_of (rev kvs) key \<noteq> None \<longleftrightarrow> key \<in> fst ` set kvs" by (simp add: map_of_eq_None_iff)
  then show ?thesis unfolding c
    by (auto simp: EnvGetCallback_def EnvHasCallback_def ReadStringArg_def split: option.split)
qed

theorem env_get_captured_witness:
  "EnvGetCallback plain_v8 (CaptureEnvironment (map (\<lambda>(k, x). k @ ''='' @ x)
       [(''A'', ''1''), (''B'', ''x=y''), (''A'', ''2'')])) [JStr ''A''] = Return (V8String plain_v8 ''2'')"
  using env_get_captured [of "[(''A'', ''1''), (''B'', ''x=y''), (''A'', ''2'')]" plain_v8 "''A''"] by simp

text \<open>
  Kode.sleep refuses a missing, non-numeric or negative delay with EINVAL; a started sleep is
  resolved with undefined when its timer fires, once, and the timer is closed then. Not a number
  passes the check although it is no delay.
\<close>
theorem sleep_outcome:
  "SleepCallback v True [JNum (Fin r)] =
     (if r < 0 then SleepThrow (sleep_error v)
      else SleepStarted \<lparr> timer_ms = to_uint64 (Fin r), sleep_promise = Pending, settled = False, timer_closed = False \<rparr>)
   \<and> SleepCallback v True [] = SleepThrow (sleep_error v)
   \<and> (\<exists>req. SleepCallback v True [JNum NaN] = SleepStarted req \<and> timer_ms req = None)
   \<and> sleep_promise (SleepTimerCallback \<lparr> timer_ms = t, sleep_promise = Pending, settled = False, timer_closed = False \<rparr>)
       = Fulfilled JUndefined
   \<and> SleepTimerCallback (SleepTimerCallback req) = SleepTimerCallback req"
  by (simp add: SleepCallback_def SleepTimerCallback_def ReadSleepSignal_def Let_def)

end
