(* ===== verification/Engine.thy ===== *)
theory Engine
  imports KodeHost ModuleLoader
begin

text \<open>
  \<open>src/v8/engine.cc\<close>: the two builds, and for the one with V8 initialisation and shutdown, \<open>console.log\<close>, running a
  script and waiting for its top-level promise. Compiling and running a script and the event loop
  are parameters; waiting for a promise may not end, so it is a partial function whose value is
  \<^term>\<open>None\<close> when it does not.
\<close>

section \<open>The two builds\<close>

text \<open>
  Without \<open>KODE_WITH_V8\<close> the interface consists of stubs, and \<open>available\<close> is how the runtime tells the
  builds apart: it calls the other functions only behind it.
\<close>

datatype build = WithV8 | WithoutV8

fun available :: "build \<Rightarrow> bool" where
  "available WithV8 = True"
| "available WithoutV8 = False"

section \<open>State\<close>

record engine =
  isolate :: bool                 \<comment> \<open>\<open>g_isolate\<close> is set\<close>
  js_context :: "jsval option"    \<comment> \<open>\<open>g_context\<close>, by its global object\<close>
  g_options :: runtime_options
  g_loop :: bool                  \<comment> \<open>\<open>g_loop\<close> is set\<close>
  g_env :: env_snapshot
  g_loader :: loader

definition setRuntimeOptions :: "runtime_options \<Rightarrow> engine \<Rightarrow> engine" where
  "setRuntimeOptions o1 e = e\<lparr>g_options := o1\<rparr>"

definition setEventLoop :: "bool \<Rightarrow> engine \<Rightarrow> engine" where
  "setEventLoop l e = e\<lparr>g_loop := l\<rparr>"

definition eventLoop :: "engine \<Rightarrow> bool" where
  "eventLoop e = g_loop e"

section \<open>console.log\<close>

definition js_to_string :: "v8 \<Rightarrow> jsval \<Rightarrow> string" where
  "js_to_string v x = (case x of JStr s \<Rightarrow> s | _ \<Rightarrow> to_string v x)"

text \<open>The stream prints each text up to its first NUL.\<close>

fun console_line :: "v8 \<Rightarrow> nat \<Rightarrow> jsval list \<Rightarrow> string" where
  "console_line v i [] = []"
| "console_line v i (x # xs) =
     (if 0 < i then '' '' else []) @ c_str (js_to_string v x) @ console_line v (Suc i) xs"

definition ConsoleLogCallback :: "v8 \<Rightarrow> jsval list \<Rightarrow> string" where
  "ConsoleLogCallback v args = console_line v 0 args @ [CHR 0x0A]"

section \<open>Initialisation and shutdown\<close>

text \<open>
  What V8 answers during \<open>initialize\<close>: is there an isolate, does the bootstrap script compile and
  run (or which error does it give), do the installations of the host interface succeed.
\<close>

record v8_init =
  isolate_ok :: bool
  compile_error :: "string option"   \<comment> \<open>of the bootstrap script\<close>
  run_error :: "string option"
  text_ok :: bool
  globals_ok :: "bool \<times> bool \<times> bool \<times> bool"
  define_ok :: bool

definition bootstrap_kode :: jsval where
  "bootstrap_kode = JHost
     [(''scope'', JFun ''scope''), (''activeOperations'', JFun ''activeOperations''), (''timeout'', JFun ''timeout'')] False"

definition initial_global :: jsval where
  "initial_global = JHost
     [(''require'', JFun ''RequireCallback''),
      (''console'', JHost [(''log'', JFun ''ConsoleLogCallback'')] False)] False"

text \<open>\<open>InstallKodeRuntimeBootstrap\<close>: the global object with \<open>Kode\<close>, or the error.\<close>

definition InstallKodeRuntimeBootstrap :: "v8_init \<Rightarrow> jsval \<Rightarrow> string + jsval" where
  "InstallKodeRuntimeBootstrap i global =
     (case compile_error i of
        Some err \<Rightarrow> Inl (if err \<noteq> [] then err else ''Failed to compile Kode bootstrap'')
      | None \<Rightarrow>
         (case run_error i of
            Some err \<Rightarrow> Inl (if err \<noteq> [] then err else ''Failed to run Kode bootstrap'')
          | None \<Rightarrow> Inr (SetProp global ''Kode'' bootstrap_kode)))"

definition initialize :: "v8 \<Rightarrow> v8_init \<Rightarrow> string list \<Rightarrow> engine \<Rightarrow> engine \<times> bool \<times> string" where
  "initialize v i environ e =
     (if isolate e then (e, True, [])
      else if \<not> isolate_ok i then (e, False, ''Failed to create V8 Isolate'')
      else
        (let e1 = e\<lparr>isolate := True, g_env := CaptureEnvironment environ\<rparr> in
         case InstallKodeRuntimeBootstrap i initial_global of
           Inl err \<Rightarrow> (e1, False, err)
         | Inr global \<Rightarrow>
            (case InstallKodeHostApis v (text_ok i) (globals_ok i) (define_ok i) global (g_options e) of
               None \<Rightarrow> (e1, False, ''Failed to install Kode host APIs'')
             | Some g \<Rightarrow> (e1\<lparr>js_context := Some g\<rparr>, True, []))))"

definition shutdown :: "engine \<Rightarrow> engine" where
  "shutdown e =
     (if \<not> isolate e then e
      else e\<lparr>isolate := False, js_context := None, g_loop := False, g_env := ClearKodeHostState,
             g_loader := ClearModuleCache (g_loader e)\<rparr>)"

section \<open>The top-level promise\<close>

definition PromiseResultToString :: "v8 \<Rightarrow> jsval \<Rightarrow> string" where
  "PromiseResultToString v x = (if IsUndefined x then [] else js_to_string v x)"

text \<open>
  The event loop and V8 as the engine sees them: whether the loop has active handles, one
  \<open>uv_run\<close> of it, the microtask checkpoint, and the state of the promise that the script returned.
\<close>

record 'l evloop =
  loop_alive :: "'l \<Rightarrow> bool"
  uv_run_once :: "'l \<Rightarrow> 'l"
  checkpoint :: "'l \<Rightarrow> 'l"
  promise_of :: "'l \<Rightarrow> promise"

definition loop_round :: "'l evloop \<Rightarrow> 'l \<Rightarrow> 'l" where
  "loop_round ev l = checkpoint ev (uv_run_once ev l)"

partial_function (option) wait_promise :: "'l evloop \<Rightarrow> bool \<Rightarrow> 'l \<Rightarrow> 'l option" where
  "wait_promise ev has_loop l =
     (if promise_of ev l = Pending \<and> has_loop \<and> loop_alive ev l
      then wait_promise ev has_loop (loop_round ev l)
      else Some l)"

definition promise_outcome :: "v8 \<Rightarrow> promise \<Rightarrow> string \<times> string" where
  "promise_outcome v p =
     (case p of
        Rejected r \<Rightarrow> ([], let err = PromiseResultToString v r in if err = [] then ''Promise rejected'' else err)
      | Fulfilled x \<Rightarrow> (PromiseResultToString v x, [])
      | Pending \<Rightarrow> ([], []))"

text \<open>The result of a script: an error with V8's message, a plain value, or a promise.\<close>

datatype run_result =
    RunFailed "(string \<times> nat) option" string
  | RunValue jsval
  | RunPromise

definition ResolveTopLevelPromise ::
  "v8 \<Rightarrow> 'l evloop \<Rightarrow> bool \<Rightarrow> run_result \<Rightarrow> 'l \<Rightarrow> ('l \<times> string \<times> string) option" where
  "ResolveTopLevelPromise v ev has_loop r l =
     (case r of
        RunPromise \<Rightarrow> map_option (\<lambda>l'. (l', promise_outcome v (promise_of ev l'))) (wait_promise ev has_loop l)
      | RunValue x \<Rightarrow> Some (l, PromiseResultToString v x, [])
      | RunFailed m exn \<Rightarrow> Some (l, [], []))"

text \<open>
  \<open>runScript\<close>: result and error text. \<open>compile_run\<close> compiles and runs the script and performs a
  microtask checkpoint; the value is \<^term>\<open>None\<close> when waiting does not end, when the file name is
  empty (\<open>std::filesystem::absolute\<close> throws) and when there is an isolate but no context, whose empty
  handle the code would enter.
\<close>

definition runScript ::
  "v8 \<Rightarrow> 'l evloop \<Rightarrow> (string \<Rightarrow> string \<Rightarrow> 'l \<Rightarrow> run_result \<times> 'l) \<Rightarrow> string \<Rightarrow> string \<Rightarrow> string \<Rightarrow>
     engine \<Rightarrow> 'l \<Rightarrow> (engine \<times> 'l \<times> string \<times> string) option" where
  "runScript v ev compile_run cwd src fname e l =
     (if \<not> isolate e then Some (e, l, [], ''V8 not initialized'')
      else if js_context e = None then None
      else
        (case (SetModuleEntryDirectory cwd fname (g_loader e), NormalizePath cwd fname) of
           (Some ld, Some normalized) \<Rightarrow>
             (let e1 = e\<lparr>g_loader := ld\<rparr> in
              if max_length v < length (c_str src) then Some (e1, l, [], ''Failed to create V8 source string'')
              else (case compile_run (c_str src) normalized l of
                      (RunFailed m exn, l1) \<Rightarrow> Some (e1, l1, [], FormatTryCatch m exn normalized)
                    | (r, l1) \<Rightarrow> map_option (\<lambda>(l2, res). (e1, l2, res)) (ResolveTopLevelPromise v ev (g_loop e1) r l1)))
         | _ \<Rightarrow> None))"

section \<open>Properties\<close>

lemma wait_promise_ends:
  fixes measure_of :: "'l \<Rightarrow> nat"
  assumes "\<And>x. promise_of ev x = Pending \<Longrightarrow> loop_alive ev x \<Longrightarrow> measure_of (loop_round ev x) < measure_of x"
  shows "\<exists>l'. wait_promise ev h l = Some l' \<and> (promise_of ev l' \<noteq> Pending \<or> \<not> h \<or> \<not> loop_alive ev l')"
proof (induction "measure_of l" arbitrary: l rule: less_induct)
  case less
  show ?case
  proof (cases "promise_of ev l = Pending \<and> h \<and> loop_alive ev l")
    case True
    with less assms have "\<exists>l'. wait_promise ev h (loop_round ev l) = Some l'
        \<and> (promise_of ev l' \<noteq> Pending \<or> \<not> h \<or> \<not> loop_alive ev l')" by blast
    with True show ?thesis by (subst wait_promise.simps) simp
  next
    case False
    then show ?thesis by (subst wait_promise.simps) auto
  qed
qed

definition work_left :: "'l evloop \<Rightarrow> ('l \<Rightarrow> nat) \<Rightarrow> bool" where
  "work_left ev f \<longleftrightarrow>
     (\<forall>x. promise_of ev x = Pending \<longrightarrow> loop_alive ev x \<longrightarrow> f (loop_round ev x) < f x)"


text \<open>A loop with a counter of rounds: it resolves the promise in the last round.\<close>

definition count_loop :: "nat evloop" where
  "count_loop = \<lparr> loop_alive = (\<lambda>n. 0 < n), uv_run_once = (\<lambda>n. n - 1), checkpoint = (\<lambda>n. n),
     promise_of = (\<lambda>n. if n = 0 then Fulfilled (JStr ''done'') else Pending) \<rparr>"


text \<open>
  A failed installation is not noticed later: the isolate stays set, so that the next call of
  \<open>initialize\<close> returns true although there is no context to run scripts in.
\<close>

lemma initialize_after_failure:
  "\<not> isolate e \<Longrightarrow> js_context e = None \<Longrightarrow> isolate_ok i \<Longrightarrow> compile_error i = Some err \<or> run_error i = Some err \<Longrightarrow>
     \<exists>e1 msg. initialize v i environ e = (e1, False, msg) \<and> js_context e1 = None
       \<and> initialize v j environ e1 = (e1, True, [])"
  by (cases "compile_error i") (auto simp: initialize_def InstallKodeRuntimeBootstrap_def)

definition engine_inv :: "engine \<Rightarrow> bool" where
  "engine_inv e \<longleftrightarrow> (isolate e \<longleftrightarrow> js_context e \<noteq> None)"

lemma initialize_inv:
  "engine_inv e \<Longrightarrow> initialize v i environ e = (e', True, msg) \<Longrightarrow> engine_inv e' \<and> isolate e'"
  by (auto simp: initialize_def engine_inv_def Let_def split: if_splits sum.splits option.splits)

lemma shutdown_inv: "engine_inv e \<Longrightarrow> engine_inv (shutdown e) \<and> \<not> isolate (shutdown e)"
  by (auto simp: shutdown_def engine_inv_def)

text \<open>
  The Kode object that a successful start gives to scripts cannot be changed: it is frozen, and
  so are its args (with the executable, the script and the user arguments of the command line) and
  its env.
\<close>
theorem kode_object_frozen:
  assumes "initialize v i environ e = (e', True, [])" "\<not> isolate e"
  shows "\<exists>g kprops. js_context e' = Some g \<and> Get v g ''Kode'' = Some (JHost kprops True)
    \<and> map_of kprops ''args'' = Some (args_object v (g_options e)) \<and> map_of kprops ''env'' = Some env_object
    \<and> FreezeValue (args_object v (g_options e)) = args_object v (g_options e)
    \<and> g_env e' = CaptureEnvironment environ"
proof -
  have b: "compile_error i = None" "run_error i = None" "isolate_ok i"
    using assms by (auto simp: initialize_def InstallKodeRuntimeBootstrap_def Let_def split: if_splits option.splits)
  obtain g where g: "InstallKodeHostApis v (text_ok i) (globals_ok i) (define_ok i)
      (SetProp initial_global ''Kode'' bootstrap_kode) (g_options e) = Some g"
    "e' = e\<lparr>isolate := True, g_env := CaptureEnvironment environ, js_context := Some g\<rparr>"
    using assms b by (auto simp: initialize_def InstallKodeRuntimeBootstrap_def Let_def split: option.splits)
  obtain f1 s1 f2 s2 where ok: "globals_ok i = (f1, s1, f2, s2)" by (cases "globals_ok i") auto
  show ?thesis using g ok
    by (auto simp: InstallKodeHostApis_def InstallKodeTextApi_def InstallTextEncodingGlobals_def initial_global_def
        bootstrap_kode_def args_object_def Let_def split: if_splits)
qed

definition good_init :: v8_init where
  "good_init = \<lparr> isolate_ok = True, compile_error = None, run_error = None, text_ok = True,
     globals_ok = (True, True, True, True), define_ok = True \<rparr>"

definition new_engine :: engine where
  "new_engine = \<lparr> isolate = False, js_context = None,
     g_options = \<lparr> executable = ''kode'', script = ''a.js'', user_args = [''x''] \<rparr>, g_loop = True,
     g_env = Map.empty, g_loader = demo_loader \<rparr>"

theorem kode_object_frozen_witness:
  "\<exists>e' g kprops. initialize plain_v8 good_init [] new_engine = (e', True, []) \<and> js_context e' = Some g
     \<and> Get plain_v8 g ''Kode'' = Some (JHost kprops True)"
proof -
  have "fst (snd (initialize plain_v8 good_init [] new_engine)) \<and> snd (snd (initialize plain_v8 good_init [] new_engine)) = []"
    by (simp add: initialize_def new_engine_def good_init_def InstallKodeRuntimeBootstrap_def InstallKodeHostApis_def
        InstallKodeTextApi_def InstallTextEncodingGlobals_def initial_global_def bootstrap_kode_def Let_def)
  then obtain e' where i: "initialize plain_v8 good_init [] new_engine = (e', True, [])"
    by (cases "initialize plain_v8 good_init [] new_engine") auto
  have "\<not> isolate new_engine" by (simp add: new_engine_def)
  from kode_object_frozen [OF i this] i show ?thesis by blast
qed

end
