(* ===== verification/Parser.thy ===== *)
theory Parser
  imports Prelude
begin

text \<open>
  \<open>src/parser/parser.cc\<close>: the line-oriented parser. The text helpers first (comments, lines,
  white space, arguments, literals), then \<open>IsCallbackPattern\<close>, \<open>ParseLine\<close> and \<open>Parse\<close>. A statement
  is the record of the fields that the code assigns; the others of the struct are never written.
\<close>

section \<open>Statements\<close>

datatype stmt_type =
    CONSOLE_LOG | CONSOLE_ERROR | CONSOLE_WARN | CONSOLE_INFO
  | SET_TIMEOUT | SET_INTERVAL | CLEAR_TIMEOUT | CLEAR_INTERVAL
  | KODE_SPAWN | CH_CREATE | CH_SEND | CH_RECV | YIELD_OP | WITH_TIMEOUT
  | FS_READ_FILE | FS_WRITE_FILE | FS_READ_FILE_SYNC | FS_WRITE_FILE_SYNC
  | FS_EXISTS | FS_MKDIR | FS_READDIR | FS_STAT
  | REQUIRE | IMPORT | EXPORT
  | CONST_DECLARATION | LET_DECLARATION | VAR_DECLARATION
  | FUNCTION_DECLARATION | ARROW_FUNCTION | CLASS_DECLARATION
  | METHOD_CALL | PROPERTY_ACCESS
  | IF_STATEMENT | FOR_LOOP | WHILE_LOOP | TRY_CATCH
  | ASSIGNMENT | BINARY_OPERATION | UNARY_OPERATION
  | STRING_LITERAL | NUMBER_LITERAL | BOOLEAN_LITERAL | NULL_LITERAL
  | ASYNC_FUNCTION | AWAIT_EXPRESSION | PROMISE_THEN | PROMISE_CATCH
  | TEMPLATE_LITERAL | DESTRUCTURING | SPREAD_OPERATOR
  | UNKNOWN | ERROR

record statement =
  type :: stmt_type
  content :: string
  options :: "string \<rightharpoonup> string"

definition new_statement :: statement where
  "new_statement = \<lparr> type = UNKNOWN, content = [], options = Map.empty \<rparr>"

definition set_option :: "string \<Rightarrow> string \<Rightarrow> statement \<Rightarrow> statement" where
  "set_option k x s = s\<lparr>options := (options s)(k \<mapsto> x)\<rparr>"

abbreviation newline :: char where "newline \<equiv> CHR 0x0A"
abbreviation squote :: char where "squote \<equiv> CHR 0x27"
abbreviation dquote :: char where "dquote \<equiv> CHR 0x22"
abbreviation backtick :: char where "backtick \<equiv> CHR 0x60"
abbreviation backslash :: char where "backslash \<equiv> CHR 0x5C"

section \<open>Text helpers\<close>

text \<open>\<open>std::getline\<close> until the stream is exhausted: the text after the last newline, if any, is a line.\<close>

fun SplitIntoLines :: "string \<Rightarrow> string list" where
  "SplitIntoLines [] = []"
| "SplitIntoLines (c # s) =
     (if c = newline then [] # SplitIntoLines s
      else (case SplitIntoLines s of
              [] \<Rightarrow> [[c]]
            | l # ls \<Rightarrow> (c # l) # ls))"

definition is_ws :: "char \<Rightarrow> bool" where
  "is_ws c \<longleftrightarrow> c \<in> {CHR '' '', CHR 0x09, CHR 0x0D, CHR 0x0A}"

definition find_first_not_ws :: "string \<Rightarrow> nat option" where
  "find_first_not_ws s =
     (let n = length (takeWhile is_ws s) in if n < length s then Some n else None)"

definition find_last_not_ws :: "string \<Rightarrow> nat option" where
  "find_last_not_ws s =
     (let n = length (takeWhile is_ws (rev s)) in if n < length s then Some (length s - n - 1) else None)"

definition TrimWhitespace :: "string \<Rightarrow> string" where
  "TrimWhitespace str =
     (case (find_first_not_ws str, find_last_not_ws str) of
        (Some start, Some stop) \<Rightarrow> substr str start (stop - start + 1)
      | _ \<Rightarrow> [])"

lemma str_find_from_Some:
  assumes "str_find_from pat s pos = Some i"
  shows "pos \<le> i" "i + length pat \<le> length s" "prefix pat (drop i s)"
    "\<And>j. pos \<le> j \<Longrightarrow> j < i \<Longrightarrow> \<not> prefix pat (drop j s)"
proof -
  from assms obtain k where k: "pos \<le> length s" "str_find pat (drop pos s) = Some k" "i = pos + k"
    by (auto simp: str_find_from_def split: if_splits)
  note f = str_find_Some [OF k(2)]
  show "pos \<le> i" "i + length pat \<le> length s" using k f by auto
  have "take (length pat) (drop i s) = pat" using f k by (simp add: add.commute)
  then show "prefix pat (drop i s)" by (metis take_is_prefix)
  fix j assume "pos \<le> j" "j < i"
  then have "\<not> prefix pat (drop (j - pos) (drop pos s))"
    using str_find_least [OF k(2), of "j - pos"] k by auto
  with \<open>pos \<le> j\<close> show "\<not> prefix pat (drop j s)" by simp
qed

lemma remove_shorter:
  assumes "str_find_from ''//'' s pos = Some p" "str_find_from [newline] s p = Some e"
  shows "p < e \<and> e < length s"
proof -
  have "prefix ''//'' (drop p s)" "prefix [newline] (drop e s)" "p \<le> e" "e < length s"
    using str_find_from_Some [OF assms(1)] str_find_from_Some [OF assms(2)] by auto
  then have "p \<noteq> e" by (cases "drop p s") auto
  with \<open>p \<le> e\<close> \<open>e < length s\<close> show ?thesis by simp
qed

function remove_loop :: "string \<Rightarrow> nat \<Rightarrow> string" where
  "remove_loop result pos =
     (case str_find_from ''//'' result pos of
        None \<Rightarrow> result
      | Some p \<Rightarrow>
         (case str_find_from [newline] result p of
            None \<Rightarrow> take p result
          | Some endLine \<Rightarrow> remove_loop (take p result @ drop endLine result) p))"
  by pat_completeness auto

termination
  by (relation "measure (\<lambda>(s, pos). length s)") (auto dest: remove_shorter)

declare remove_loop.simps [simp del]

definition RemoveComments :: "string \<Rightarrow> string" where
  "RemoveComments code = remove_loop code 0"

definition RemoveSemicolons :: "string \<Rightarrow> string" where
  "RemoveSemicolons str = (if str \<noteq> [] \<and> last str = CHR '';'' then butlast str else str)"

text \<open>The locals of the scanner in \<open>ExtractFunctionArguments\<close>.\<close>

record scanner =
  cur :: string
  inSingle :: bool
  inDouble :: bool
  inBacktick :: bool
  escape :: bool
  depth :: nat
  args_out :: "string list"

definition scan_init :: scanner where
  "scan_init = \<lparr> cur = [], inSingle = False, inDouble = False, inBacktick = False,
                escape = False, depth = 0, args_out = [] \<rparr>"

definition push_cur :: "char \<Rightarrow> scanner \<Rightarrow> scanner" where
  "push_cur c s = s\<lparr>cur := cur s @ [c]\<rparr>"

definition scan_char :: "char \<Rightarrow> scanner \<Rightarrow> scanner" where
  "scan_char c s =
     (if escape s then push_cur c s\<lparr>escape := False\<rparr>
      else if c = backslash then push_cur c s\<lparr>escape := True\<rparr>
      else if inSingle s then push_cur c (if c = squote then s\<lparr>inSingle := False\<rparr> else s)
      else if inDouble s then push_cur c (if c = dquote then s\<lparr>inDouble := False\<rparr> else s)
      else if inBacktick s then push_cur c (if c = backtick then s\<lparr>inBacktick := False\<rparr> else s)
      else if c = squote then push_cur c s\<lparr>inSingle := True\<rparr>
      else if c = dquote then push_cur c s\<lparr>inDouble := True\<rparr>
      else if c = backtick then push_cur c s\<lparr>inBacktick := True\<rparr>
      else if c = CHR ''('' then push_cur c s\<lparr>depth := depth s + 1\<rparr>
      else if c = CHR '')'' then push_cur c (if 0 < depth s then s\<lparr>depth := depth s - 1\<rparr> else s)
      else if c = CHR '','' \<and> depth s = 0 then
        s\<lparr>cur := [], args_out := args_out s @ [TrimWhitespace (cur s)]\<rparr>
      else push_cur c s)"

definition ExtractFunctionArguments :: "string \<Rightarrow> string list" where
  "ExtractFunctionArguments line =
     (case (str_find [CHR ''(''] line, str_rfind_char (CHR '')'') line) of
        (Some start, Some stop) \<Rightarrow>
          if stop \<le> start then []
          else (let s = substr line (start + 1) (stop - start - 1);
                    sc = fold scan_char s scan_init
                in if cur sc \<noteq> [] \<or> s \<noteq> [] then args_out sc @ [TrimWhitespace (cur sc)]
                   else args_out sc)
      | _ \<Rightarrow> [])"

definition quoted_by :: "char \<Rightarrow> string \<Rightarrow> bool" where
  "quoted_by q s \<longleftrightarrow> 2 \<le> length s \<and> hd s = q \<and> last s = q"

definition ExtractStringLiteral :: "string \<Rightarrow> string" where
  "ExtractStringLiteral str =
     (let trimmed = TrimWhitespace str in
      if quoted_by squote trimmed then substr trimmed 1 (length trimmed - 2)
      else if quoted_by dquote trimmed then substr trimmed 1 (length trimmed - 2)
      else if quoted_by backtick trimmed then substr trimmed 1 (length trimmed - 2)
      else trimmed)"

section \<open>Lines\<close>

definition callback_patterns :: "string list" where
  "callback_patterns =
     [''if (err)'', ''if (error)'', ''} else {'', ''} catch'', ''} finally'',
      ''return;'', ''throw'', ''break;'', ''continue;'',
      ''err'', ''error'', ''data.toString()'', ''.then('', ''.catch('']"

definition IsCallbackPattern :: "string \<Rightarrow> bool" where
  "IsCallbackPattern line = list_ex (\<lambda>pattern. str_contains pattern line) callback_patterns"

definition stoi_or :: "int \<Rightarrow> string \<Rightarrow> int" where
  "stoi_or dflt s = (case stoi s of Inr i \<Rightarrow> i | Inl e \<Rightarrow> dflt)"

definition parse_concurrency :: "string \<Rightarrow> statement option" where
  "parse_concurrency trimmed =
     (let args = ExtractFunctionArguments trimmed in
      if prefix ''kode('' trimmed then
        Some (new_statement\<lparr>type := KODE_SPAWN,
          content := (if args \<noteq> [] then ExtractStringLiteral (args ! 0) else [])\<rparr>)
      else if prefix ''createChannel('' trimmed then
        (let s = new_statement\<lparr>type := CH_CREATE\<rparr>;
             s1 = (if args \<noteq> [] then set_option ''name'' (ExtractStringLiteral (args ! 0)) s else s)
         in Some (set_option ''capacity''
              (if 1 < length args then int_to_dec (stoi_or 0 (args ! 1)) else ''0'') s1))
      else if prefix ''sendToChannel('' trimmed then
        (let s = new_statement\<lparr>type := CH_SEND\<rparr> in
         Some (if 2 \<le> length args
               then set_option ''value'' (ExtractStringLiteral (args ! 1))
                      (set_option ''name'' (ExtractStringLiteral (args ! 0)) s)
               else s))
      else if prefix ''receiveFromChannel('' trimmed then
        (let s = new_statement\<lparr>type := CH_RECV\<rparr> in
         Some (if args \<noteq> [] then set_option ''name'' (ExtractStringLiteral (args ! 0)) s else s))
      else if trimmed = ''yield()'' \<or> prefix ''yield('' trimmed then
        Some (new_statement\<lparr>type := YIELD_OP\<rparr>)
      else if prefix ''withTimeout('' trimmed then
        (let ms = (if args \<noteq> [] then stoi_or 0 (args ! 0) else 0);
             s = set_option ''timeout'' (int_to_dec ms) (new_statement\<lparr>type := WITH_TIMEOUT\<rparr>)
         in Some (if 1 < length args then s\<lparr>content := ExtractStringLiteral (args ! 1)\<rparr> else s))
      else None)"

definition parse_console :: "string \<Rightarrow> statement" where
  "parse_console trimmed =
     (let ty = (if str_contains ''console.error'' trimmed then CONSOLE_ERROR
                else if str_contains ''console.warn'' trimmed then CONSOLE_WARN
                else if str_contains ''console.info'' trimmed then CONSOLE_INFO
                else CONSOLE_LOG);
          s = new_statement\<lparr>type := ty\<rparr>
      in case (str_find ''('' trimmed, str_rfind_char (CHR '')'') trimmed) of
           (Some start, Some stop) \<Rightarrow>
             if start < stop
             then s\<lparr>content := ExtractStringLiteral (substr trimmed (start + 1) (stop - start - 1))\<rparr>
             else s
         | _ \<Rightarrow> s)"

definition parse_timer :: "string \<Rightarrow> statement" where
  "parse_timer trimmed =
     (let args = ExtractFunctionArguments trimmed;
          delay = (if 1 < length args then stoi_or 1000 (args ! 1) else 1000)
      in set_option ''delay'' (int_to_dec delay)
           (new_statement\<lparr>type := SET_TIMEOUT, content := ''Timer callback executed!''\<rparr>))"

definition parse_read :: "stmt_type \<Rightarrow> string \<Rightarrow> statement" where
  "parse_read ty trimmed =
     (let args = ExtractFunctionArguments trimmed;
          name = (if args \<noteq> [] then ExtractStringLiteral (args ! 0) else []);
          s = new_statement\<lparr>type := ty, content := (if name = [] then ''index.js'' else name)\<rparr>
      in if ty = FS_READ_FILE \<and> 1 < length args \<and> ExtractStringLiteral (args ! 1) \<noteq> []
         then set_option ''encoding'' (ExtractStringLiteral (args ! 1)) s else s)"

definition parse_write :: "string \<Rightarrow> statement" where
  "parse_write trimmed =
     (let args = ExtractFunctionArguments trimmed;
          s = new_statement\<lparr>type := FS_WRITE_FILE\<rparr>;
          s1 = (if 2 \<le> length args
                then set_option ''content'' (ExtractStringLiteral (args ! 1))
                       (s\<lparr>content := ExtractStringLiteral (args ! 0)\<rparr>)
                else s)
      in if 2 < length args \<and> ExtractStringLiteral (args ! 2) \<noteq> []
         then set_option ''encoding'' (ExtractStringLiteral (args ! 2)) s1 else s1)"

definition parse_module :: "string \<Rightarrow> statement" where
  "parse_module trimmed =
     (let s = new_statement\<lparr>type := REQUIRE\<rparr>; args = ExtractFunctionArguments trimmed in
      if str_contains ''require('' trimmed then
        (if args \<noteq> [] then s\<lparr>content := ExtractStringLiteral (args ! 0)\<rparr> else s)
      else (case str_find ''from '' trimmed of
              None \<Rightarrow> s
            | Some p \<Rightarrow> s\<lparr>content := ExtractStringLiteral (TrimWhitespace (drop (p + 5) trimmed))\<rparr>))"

definition ParseLine :: "string \<Rightarrow> statement" where
  "ParseLine line =
     (let trimmed = TrimWhitespace (RemoveSemicolons line) in
      case parse_concurrency trimmed of
        Some s \<Rightarrow> s
      | None \<Rightarrow>
          if prefix ''console.'' trimmed then parse_console trimmed
          else if prefix ''setTimeout'' trimmed \<or> prefix ''setInterval'' trimmed then parse_timer trimmed
          else if prefix ''fs.readFile'' trimmed \<and> \<not> str_contains ''Sync'' trimmed
            then parse_read FS_READ_FILE trimmed
          else if prefix ''fs.readFileSync'' trimmed then parse_read FS_READ_FILE_SYNC trimmed
          else if prefix ''fs.writeFile'' trimmed then parse_write trimmed
          else if prefix ''require('' trimmed \<or> prefix ''import '' trimmed then parse_module trimmed
          else if str_find ''const '' trimmed = Some 0
            then new_statement\<lparr>type := CONST_DECLARATION, content := trimmed\<rparr>
          else if str_find ''let '' trimmed = Some 0
            then new_statement\<lparr>type := LET_DECLARATION, content := trimmed\<rparr>
          else if str_find ''var '' trimmed = Some 0
            then new_statement\<lparr>type := VAR_DECLARATION, content := trimmed\<rparr>
          else new_statement)"

text \<open>The locals of \<open>Parse\<close>.\<close>

record parse_state =
  insideCallback :: bool
  braceDepth :: int
  statements :: "statement list"

definition brace_delta :: "string \<Rightarrow> int" where
  "brace_delta s = int (count_list s (CHR ''{'')) - int (count_list s (CHR ''}''))"

definition parse_step :: "string \<Rightarrow> parse_state \<Rightarrow> parse_state" where
  "parse_step line p =
     (let trimmed = TrimWhitespace line in
      if trimmed = [] then p
      else
        (let bd = braceDepth p + brace_delta trimmed;
             cb = (insideCallback p \<or> str_contains ''=>'' trimmed \<or> str_contains ''function'' trimmed);
             q = p\<lparr>insideCallback := cb, braceDepth := bd\<rparr>
         in if cb \<and> 0 < bd then q
            else if cb \<and> bd \<le> 0 then q\<lparr>insideCallback := False\<rparr>
            else if IsCallbackPattern trimmed then q
            else (let stmt = ParseLine trimmed in
                  if type stmt \<noteq> UNKNOWN then q\<lparr>statements := statements q @ [stmt]\<rparr> else q)))"

definition Parse :: "string \<Rightarrow> statement list" where
  "Parse code =
     statements (fold parse_step (SplitIntoLines (RemoveComments code))
       \<lparr> insideCallback = False, braceDepth = 0, statements = [] \<rparr>)"

section \<open>Comments\<close>

text \<open>The reference: one pass over the text that skips from two slashes to the end of the line.\<close>

function strip_comments :: "string \<Rightarrow> string" where
  "strip_comments [] = []"
| "strip_comments (c # s) =
     (if prefix ''//'' (c # s) then strip_comments (dropWhile (\<lambda>d. d \<noteq> newline) s)
      else c # strip_comments s)"
  by pat_completeness auto
termination
  by (relation "measure length") (auto simp: less_Suc_eq_le length_dropWhile_le)

lemma strip_comments_keep:
  "(\<And>j. j < length u \<Longrightarrow> \<not> prefix ''//'' (drop j (u @ r))) \<Longrightarrow> strip_comments (u @ r) = u @ strip_comments r"
proof (induction u)
  case (Cons c u)
  have "\<not> prefix ''//'' (c # u @ r)" using Cons.prems [of 0] by simp
  moreover have "strip_comments (u @ r) = u @ strip_comments r"
    using Cons.prems [of "Suc _"] by (intro Cons.IH) auto
  ultimately show ?case by (simp only: append_Cons strip_comments.simps if_False)
qed simp

lemma find_newline_dropWhile:
  "str_find [newline] s = (if newline \<in> set s then Some (length (takeWhile (\<lambda>d. d \<noteq> newline) s)) else None)"
  by (induction s) auto

lemma drop_find_newline:
  assumes "p \<le> length s" "str_find_from [newline] s p = Some e"
  shows "drop e s = dropWhile (\<lambda>d. d \<noteq> newline) (drop p s)"
  using assms
  by (auto simp: str_find_from_def find_newline_dropWhile dropWhile_eq_drop add.commute split: if_splits)

text \<open>The text before the first double slash is kept, and the comment is skipped up to its newline.\<close>

lemma strip_to_comment:
  assumes "str_find_from ''//'' s pos = Some p"
  shows "take pos s @ strip_comments (drop pos s)
    = take p s @ strip_comments (dropWhile (\<lambda>d. d \<noteq> newline) (drop p s))"
proof -
  note f = str_find_from_Some [OF assms]
  define u where "u = take (p - pos) (drop pos s)"
  have u: "drop pos s = u @ drop p s" "take p s = take pos s @ u" "length u = p - pos"
    using f(1,2) unfolding u_def
    by (simp_all add: take_add [symmetric]) (metis append_take_drop_id drop_drop le_add_diff_inverse2 add.commute)
  obtain r where r: "drop p s = CHR ''/'' # CHR ''/'' # r" using f(3) by (auto simp: prefix_def)
  have "strip_comments (u @ drop p s) = u @ strip_comments (drop p s)"
  proof (rule strip_comments_keep)
    fix j assume "j < length u"
    with u f(4) [of "pos + j"] show "\<not> prefix ''//'' (drop j (u @ drop p s))"
      by (simp add: u(1) [symmetric] add.commute)
  qed
  then show ?thesis by (simp add: u(1,2) r)
qed

lemma remove_loop_strip:
  "pos \<le> length s \<Longrightarrow> remove_loop s pos = take pos s @ strip_comments (drop pos s)"
proof (induction s pos rule: remove_loop.induct)
  case (1 s pos)
  show ?case
  proof (cases "str_find_from ''//'' s pos")
    case None
    with "1.prems" have "str_find ''//'' (drop pos s) = None" by (auto simp: str_find_from_def)
    then have "strip_comments (drop pos s @ []) = drop pos s @ strip_comments []"
      by (intro strip_comments_keep) (auto simp: str_find_None)
    with None show ?thesis by (simp add: remove_loop.simps)
  next
    case (Some p)
    have le: "p \<le> length s" using str_find_from_Some(2) [OF Some] by simp
    show ?thesis
    proof (cases "str_find_from [newline] s p")
      case None
      with le have "newline \<notin> set (drop p s)"
        by (auto simp: str_find_from_def find_newline_dropWhile split: if_splits)
      then have "dropWhile (\<lambda>d. d \<noteq> newline) (drop p s) = []" by (auto simp: dropWhile_eq_Nil_conv)
      with strip_to_comment [OF Some] None Some show ?thesis by (simp add: remove_loop.simps)
    next
      case e: (Some e)
      have "p \<le> length (take p s @ drop e s)" "length (take p s) = p" using le by auto
      with "1.IH" [OF Some e] have "remove_loop (take p s @ drop e s) p = take p s @ strip_comments (drop e s)" by simp
      then show ?thesis using Some e strip_to_comment [OF Some] drop_find_newline [OF le e]
        by (simp add: remove_loop.simps [of s pos])
    qed
  qed
qed

lemma strip_comments_hd: "strip_comments s \<noteq> [] \<Longrightarrow> hd (strip_comments s) = CHR ''/'' \<Longrightarrow>
    \<exists>t. s = CHR ''/'' # t \<or> newline \<in> set s"
  by (induction s rule: strip_comments.induct) (auto split: if_splits)

lemma strip_comments_no_slashes: "\<not> sublist ''//'' (strip_comments s)"
proof (induction s rule: strip_comments.induct)
  case (2 c s)
  show ?case
  proof (cases "prefix ''//'' (c # s)")
    case True
    with 2(1) [OF True] show ?thesis by (simp only: strip_comments.simps if_True simp_thms)
  next
    case False
    have "\<not> prefix ''//'' (c # strip_comments s)"
    proof
      assume "prefix ''//'' (c # strip_comments s)"
      then have c: "c = CHR ''/''" and "prefix ''/'' (strip_comments s)" by auto
      from False c obtain d t where "s = [] \<or> s = d # t \<and> d \<noteq> CHR ''/''" by (cases s) auto
      with \<open>prefix ''/'' (strip_comments s)\<close> show False by auto
    qed
    with 2(2) [OF False] show ?thesis
      unfolding strip_comments.simps if_not_P [OF False] by (simp only: sublist_Cons_right simp_thms)
  qed
qed simp

text \<open>
  C23. RemoveComments deletes exactly the text from a double slash to the end of its line: the
  in-place loop agrees with the one-pass definition, terminates, and leaves no double slash behind.
\<close>
theorem remove_comments_reference:
  "RemoveComments code = strip_comments code \<and> \<not> str_contains ''//'' (RemoveComments code)"
  using remove_loop_strip [of 0 code] strip_comments_no_slashes [of code]
  by (simp add: RemoveComments_def str_contains_iff)

section \<open>Lines and white space\<close>

fun ends_with_newline :: "string \<Rightarrow> bool" where
  "ends_with_newline s = (s = [] \<or> last s = newline)"

lemma SplitIntoLines_Nil: "SplitIntoLines s = [] \<longleftrightarrow> s = []"
  by (cases s) (auto split: list.splits)

text \<open>
  SplitIntoLines loses nothing: putting a newline after every line gives the text back, with
  a newline added when the last line had none; and no line contains a newline.
\<close>
theorem split_lines_roundtrip:
  "concat (map (\<lambda>l. l @ [newline]) (SplitIntoLines s)) = (if ends_with_newline s then s else s @ [newline])
   \<and> newline \<notin> \<Union> (set ` set (SplitIntoLines s))"
proof (induction s)
  case (Cons c s)
  then show ?case
    by (cases "SplitIntoLines s") (auto simp: SplitIntoLines_Nil split: list.splits)
qed simp

lemma takeWhile_rev_length:
  "length (takeWhile P (rev s)) = length s - length (rev (dropWhile P (rev s)))"
  by (metis length_append length_rev takeWhile_dropWhile_id add_diff_cancel_right')

lemma TrimWhitespace_dropWhile:
  "TrimWhitespace s = rev (dropWhile is_ws (rev (dropWhile is_ws s)))"
proof (cases "\<forall>c \<in> set s. is_ws c")
  case True
  then have "takeWhile is_ws s = s" "dropWhile is_ws s = []"
    by (auto simp: takeWhile_eq_all_conv dropWhile_eq_Nil_conv)
  moreover from this(1) have "find_first_not_ws s = None"
    unfolding find_first_not_ws_def by (simp only: Let_def less_irrefl if_False)
  ultimately show ?thesis
    by (simp add: TrimWhitespace_def del: takeWhile_eq_all_conv dropWhile_eq_Nil_conv)
next
  case False
  let ?a = "takeWhile is_ws s" let ?r = "dropWhile is_ws s"
  let ?b = "takeWhile is_ws (rev ?r)" let ?m = "dropWhile is_ws (rev ?r)"
  have r: "?r \<noteq> []" using False by (auto simp: dropWhile_eq_Nil_conv)
  have hd: "\<not> is_ws (hd ?r)" using hd_dropWhile [OF r] .
  have rr: "\<exists>x \<in> set (rev ?r). \<not> is_ws x" using hd hd_in_set [OF r] by (metis set_rev)
  have s: "s = ?a @ rev ?m @ rev ?b"
    by (metis rev_append rev_rev_ident takeWhile_dropWhile_id)
  have m: "?m \<noteq> []" using rr by (auto simp: dropWhile_eq_Nil_conv)
  have rs: "takeWhile is_ws (rev s) = ?b"
  proof -
    have "rev s = rev ?r @ rev ?a" by (metis rev_append takeWhile_dropWhile_id)
    then show ?thesis using rr by (simp add: takeWhile_append1 takeWhile_append split: if_splits) blast
  qed
  have len: "length s = length ?a + length ?m + length ?b" by (subst s) simp
  have "find_first_not_ws s = Some (length ?a)" "find_last_not_ws s = Some (length s - length ?b - 1)"
    using m len by (auto simp: find_first_not_ws_def find_last_not_ws_def rs Let_def)
  then have "TrimWhitespace s = substr s (length ?a) (length ?m)"
    using len m by (simp add: TrimWhitespace_def)
  also have "\<dots> = rev ?m" by (subst s) (simp add: substr_def)
  finally show ?thesis .
qed

lemma TrimWhitespace_split:
  "\<exists>a b. s = a @ TrimWhitespace s @ b \<and> (\<forall>c \<in> set (a @ b). is_ws c)"
proof (intro exI conjI)
  show "s = takeWhile is_ws s @ TrimWhitespace s @ rev (takeWhile is_ws (rev (dropWhile is_ws s)))"
    unfolding TrimWhitespace_dropWhile by (metis rev_append rev_rev_ident takeWhile_dropWhile_id)
  show "\<forall>c \<in> set (takeWhile is_ws s @ rev (takeWhile is_ws (rev (dropWhile is_ws s)))). is_ws c"
    by (auto dest: set_takeWhileD)
qed

definition trimmed :: "string \<Rightarrow> bool" where
  "trimmed s \<longleftrightarrow> s = [] \<or> (\<not> is_ws (hd s) \<and> \<not> is_ws (last s))"

lemma TrimWhitespace_trimmed: "trimmed (TrimWhitespace s)"
proof (cases "TrimWhitespace s = []")
  case False
  let ?r = "dropWhile is_ws s"
  have m: "dropWhile is_ws (rev ?r) \<noteq> []" using False by (simp add: TrimWhitespace_dropWhile)
  then have r: "?r \<noteq> []" by (metis dropWhile.simps(1) rev.simps(1))
  have "last (TrimWhitespace s) = hd (dropWhile is_ws (rev ?r))"
    by (simp add: TrimWhitespace_dropWhile last_rev)
  then have l: "\<not> is_ws (last (TrimWhitespace s))" using hd_dropWhile [OF m] by simp
  have "?r = TrimWhitespace s @ rev (takeWhile is_ws (rev ?r))"
    unfolding TrimWhitespace_dropWhile by (metis rev_append rev_rev_ident takeWhile_dropWhile_id)
  then have "hd (TrimWhitespace s) = hd ?r" using False by (metis hd_append2)
  then show ?thesis using l hd_dropWhile [OF r] by (simp add: trimmed_def)
qed (simp add: trimmed_def)

lemma dropWhile_hd_False: "s = [] \<or> \<not> P (hd s) \<Longrightarrow> dropWhile P s = s"
  by (cases s) auto

lemma TrimWhitespace_id: "trimmed s \<Longrightarrow> TrimWhitespace s = s"
  using dropWhile_hd_False [of s is_ws] dropWhile_hd_False [of "rev s" is_ws]
  by (auto simp: TrimWhitespace_dropWhile trimmed_def hd_rev)

lemma TrimWhitespace_leading: "is_ws c \<Longrightarrow> TrimWhitespace (c # s) = TrimWhitespace s"
  by (simp add: TrimWhitespace_dropWhile)

text \<open>
  TrimWhitespace cuts only white space, at both ends: the text is the result between two
  runs of white space, the result neither starts nor ends with white space, and a second
  application changes nothing.
\<close>
theorem trim_whitespace_spec:
  "trimmed (TrimWhitespace s) \<and> TrimWhitespace (TrimWhitespace s) = TrimWhitespace s
   \<and> (\<exists>a b. s = a @ TrimWhitespace s @ b \<and> list_all is_ws (a @ b))"
  using TrimWhitespace_trimmed [of s] TrimWhitespace_id [OF TrimWhitespace_trimmed [of s]]
    TrimWhitespace_split [of s]
  by (simp add: list_all_iff)

section \<open>Arguments\<close>

text \<open>
  The control part of the scanner, when it splits, and the texts that it takes as one argument:
  started outside every quote and parenthesis it never splits and ends there again.
\<close>

definition ctl :: "scanner \<Rightarrow> bool \<times> bool \<times> bool \<times> bool \<times> nat" where
  "ctl s = (inSingle s, inDouble s, inBacktick s, escape s, depth s)"

definition neutral :: "scanner \<Rightarrow> bool" where
  "neutral s \<longleftrightarrow> ctl s = (False, False, False, False, 0)"

definition splits :: "char \<Rightarrow> scanner \<Rightarrow> bool" where
  "splits c s \<longleftrightarrow> c = CHR '','' \<and> neutral s"

fun quiet :: "scanner \<Rightarrow> string \<Rightarrow> bool" where
  "quiet s [] = neutral s"
| "quiet s (c # a) = (\<not> splits c s \<and> quiet (scan_char c s) a)"

definition argument :: "string \<Rightarrow> bool" where
  "argument a \<longleftrightarrow> a \<noteq> [] \<and> trimmed a \<and> quiet scan_init a"

lemma ctl_scan_char: "ctl s = ctl t \<Longrightarrow> ctl (scan_char c s) = ctl (scan_char c t)"
  by (auto simp: ctl_def scan_char_def push_cur_def)

lemma scan_char_quiet:
  "\<not> splits c s \<Longrightarrow> cur (scan_char c s) = cur s @ [c] \<and> args_out (scan_char c s) = args_out s"
  by (auto simp: splits_def neutral_def ctl_def scan_char_def push_cur_def)

lemma scan_char_splits:
  "neutral s \<Longrightarrow> scan_char (CHR '','') s = s\<lparr>cur := [], args_out := args_out s @ [TrimWhitespace (cur s)]\<rparr>"
  by (simp add: neutral_def ctl_def scan_char_def)

lemma quiet_ctl: "ctl s = ctl t \<Longrightarrow> quiet s a = quiet t a"
proof (induction a arbitrary: s t)
  case (Cons c a)
  from ctl_scan_char [OF Cons.prems] Cons.IH have "quiet (scan_char c s) a = quiet (scan_char c t) a" by blast
  with Cons.prems show ?case by (simp add: splits_def neutral_def)
qed (simp add: neutral_def)

lemma scan_quiet_fields:
  "quiet s a \<Longrightarrow> cur (fold scan_char a s) = cur s @ a \<and> args_out (fold scan_char a s) = args_out s
     \<and> neutral (fold scan_char a s)"
  by (induction s a rule: quiet.induct) (auto simp: scan_char_quiet)

lemma neutral_ctl: "neutral s \<Longrightarrow> neutral t \<Longrightarrow> ctl s = ctl t"
  by (simp add: neutral_def)

lemma neutral_init: "neutral scan_init"
  by (simp add: neutral_def ctl_def scan_init_def)

lemma scan_quiet:
  assumes "neutral s" "quiet scan_init a"
  shows "fold scan_char a s = s\<lparr>cur := cur s @ a\<rparr>"
proof -
  have "quiet s a" using quiet_ctl [OF neutral_ctl [OF assms(1) neutral_init]] assms(2) by blast
  from scan_quiet_fields [OF this] assms(1) show ?thesis
    by (intro scanner.equality) (auto simp: neutral_def ctl_def)
qed

fun join_args :: "string list \<Rightarrow> string" where
  "join_args [] = []"
| "join_args [a] = a"
| "join_args (a # as) = a @ '', '' @ join_args as"

lemma scan_space: "neutral s \<Longrightarrow> scan_char (CHR '' '') s = s\<lparr>cur := cur s @ '' ''\<rparr>"
  by (simp add: neutral_def ctl_def scan_char_def push_cur_def)

lemma TrimWhitespace_spaces: "set b \<subseteq> {CHR '' ''} \<Longrightarrow> TrimWhitespace (b @ a) = TrimWhitespace a"
  by (induction b) (simp_all add: TrimWhitespace_leading is_ws_def)

lemma scan_join_args:
  "as \<noteq> [] \<Longrightarrow> list_all argument as \<Longrightarrow> neutral s \<Longrightarrow> set (cur s) \<subseteq> {CHR '' ''} \<Longrightarrow>
     \<exists>t. fold scan_char (join_args as) s = t \<and> args_out t @ [TrimWhitespace (cur t)] = args_out s @ as"
proof (induction as arbitrary: s rule: join_args.induct)
  case (2 a)
  then have "fold scan_char a s = s\<lparr>cur := cur s @ a\<rparr>" by (intro scan_quiet) (auto simp: argument_def)
  moreover have "TrimWhitespace (cur s @ a) = a"
    using 2 by (simp add: TrimWhitespace_spaces TrimWhitespace_id argument_def)
  ultimately show ?case by simp
next
  case (3 a b as)
  let ?s1 = "s\<lparr>cur := [], args_out := args_out s @ [a]\<rparr>"
  let ?s2 = "s\<lparr>cur := '' '', args_out := args_out s @ [a]\<rparr>"
  have a: "argument a" "list_all argument (b # as)" using 3 by auto
  have "fold scan_char a s = s\<lparr>cur := cur s @ a\<rparr>" using 3 a by (intro scan_quiet) (auto simp: argument_def)
  moreover have "TrimWhitespace (cur s @ a) = a"
    using 3 a by (simp add: TrimWhitespace_spaces TrimWhitespace_id argument_def)
  ultimately have "fold scan_char (a @ '','') s = ?s1"
    using "3.prems"(3) scan_char_splits [of "s\<lparr>cur := cur s @ a\<rparr>"] by (simp add: neutral_def ctl_def)
  moreover have n: "neutral ?s1" "neutral ?s2" using "3.prems"(3) by (simp_all add: neutral_def ctl_def)
  ultimately have "fold scan_char (a @ '', '') s = ?s2" using scan_space [OF n(1)] by simp
  then have "fold scan_char (join_args (a # b # as)) s = fold scan_char (join_args (b # as)) ?s2" by simp
  with "3.IH" [of ?s2] a n show ?case by simp
qed simp

lemma join_args_nonempty: "as \<noteq> [] \<Longrightarrow> list_all argument as \<Longrightarrow> join_args as \<noteq> []"
  by (cases as rule: join_args.cases) (auto simp: argument_def)

lemma extract_call:
  assumes "CHR ''('' \<notin> set f" "as \<noteq> []" "list_all argument as"
  shows "ExtractFunctionArguments (f @ ''('' @ join_args as @ '')'') = as"
proof -
  let ?line = "f @ ''('' @ join_args as @ '')''"
  have start: "str_find [CHR ''(''] ?line = Some (length f)"
    using str_find_char_append [OF assms(1), of "join_args as @ '')''"] by simp
  have stop: "str_rfind_char (CHR '')'') ?line = Some (length f + 1 + length (join_args as))"
    using str_rfind_char_append [of "CHR '')''" "[]" "f @ ''('' @ join_args as"] by simp
  have sub: "substr ?line (length f + 1) (length f + 1 + length (join_args as) - length f - 1) = join_args as"
    by (simp add: substr_def)
  obtain t where t: "fold scan_char (join_args as) scan_init = t" "args_out t @ [TrimWhitespace (cur t)] = as"
    using scan_join_args [OF assms(2,3) neutral_init] by (auto simp: scan_init_def)
  from start stop t join_args_nonempty [OF assms(2,3)] show ?thesis
    unfolding ExtractFunctionArguments_def by (simp only: option.case prod.case sub Let_def) simp
qed



section \<open>Channel statements\<close>

definition quote :: "string \<Rightarrow> string" where
  "quote s = squote # s @ [squote]"

definition plain :: "string \<Rightarrow> bool" where
  "plain s \<longleftrightarrow> squote \<notin> set s \<and> backslash \<notin> set s"

lemma quiet_single:
  "inSingle s \<Longrightarrow> \<not> inDouble s \<Longrightarrow> \<not> inBacktick s \<Longrightarrow> \<not> escape s \<Longrightarrow> depth s = 0 \<Longrightarrow> plain t \<Longrightarrow>
     quiet s (t @ [squote])"
proof (induction t arbitrary: s)
  case Nil
  then show ?case by (simp add: splits_def neutral_def ctl_def scan_char_def push_cur_def)
next
  case (Cons c t)
  then have "scan_char c s = push_cur c s" by (auto simp: scan_char_def plain_def)
  moreover have "\<not> splits c s" using Cons.prems by (simp add: splits_def neutral_def ctl_def)
  ultimately show ?case using Cons by (simp add: push_cur_def plain_def)
qed

lemma argument_quote: "plain t \<Longrightarrow> argument (quote t)"
  using quiet_single [of "scan_char squote scan_init" t]
  by (simp add: argument_def quote_def trimmed_def is_ws_def splits_def scan_char_def scan_init_def push_cur_def)

lemma literal_quote: "ExtractStringLiteral (quote t) = t"
proof -
  have "TrimWhitespace (quote t) = quote t"
    by (rule TrimWhitespace_id) (simp add: trimmed_def quote_def is_ws_def)
  moreover have "quoted_by squote (quote t)" by (simp add: quoted_by_def quote_def)
  moreover have "substr (quote t) 1 (length (quote t) - 2) = t" by (simp add: quote_def substr_def)
  ultimately show ?thesis by (simp add: ExtractStringLiteral_def)
qed

definition dec_char :: "char \<Rightarrow> bool" where
  "dec_char c \<longleftrightarrow> is_digit c \<or> c = CHR ''-''"

lemma dec_char_ordinary:
  assumes "dec_char c"
  shows "c \<notin> {backslash, squote, dquote, backtick, CHR ''('', CHR '')'', CHR '',''}" "\<not> is_ws c"
proof -
  have "(of_char c :: nat) \<in> {45} \<union> {48..57}" using assms by (auto simp: dec_char_def is_digit_def)
  then show "c \<notin> {backslash, squote, dquote, backtick, CHR ''('', CHR '')'', CHR '',''}" "\<not> is_ws c"
    by (auto simp: is_ws_def)
qed

lemma dec_char_quiet:
  "dec_char c \<Longrightarrow> neutral s \<Longrightarrow> scan_char c s = push_cur c s \<and> \<not> splits c s \<and> \<not> is_ws c"
  using dec_char_ordinary [of c] by (simp add: scan_char_def neutral_def ctl_def splits_def)

lemma quiet_dec: "neutral s \<Longrightarrow> list_all dec_char t \<Longrightarrow> quiet s t"
proof (induction t arbitrary: s)
  case (Cons c t)
  with dec_char_quiet [of c s] show ?case by (simp add: push_cur_def neutral_def ctl_def)
qed simp

lemma dec_chars: "int_to_dec i \<noteq> [] \<and> list_all dec_char (int_to_dec i)"
  using nat_to_dec_digits by (auto simp: int_to_dec_def dec_char_def list_all_iff)

lemma argument_dec: "argument (int_to_dec i)"
proof -
  note d = dec_chars [of i]
  have "list_all (\<lambda>c. \<not> is_ws c) (int_to_dec i)"
    using d dec_char_quiet [OF _ neutral_init] by (auto simp: list_all_iff)
  then have "trimmed (int_to_dec i)" using d by (auto simp: trimmed_def list_all_iff)
  with d quiet_dec [OF neutral_init] show ?thesis by (simp add: argument_def)
qed

lemma ParseLine_call:
  assumes "f \<noteq> []" "\<not> is_ws (hd f)"
  shows "TrimWhitespace (RemoveSemicolons (f @ ''('' @ b @ '');'')) = f @ ''('' @ b @ '')''"
proof -
  have "RemoveSemicolons (f @ ''('' @ b @ '');'') = f @ ''('' @ b @ '')''"
    by (simp add: RemoveSemicolons_def butlast_append)
  moreover have "trimmed (f @ ''('' @ b @ '')'')" using assms by (simp add: trimmed_def is_ws_def)
  ultimately show ?thesis by (simp add: TrimWhitespace_id)
qed

lemma parse_create:
  assumes "plain n" "- (2 ^ 31) \<le> cap" "cap < 2 ^ 31"
  shows "ParseLine (''createChannel'' @ ''('' @ join_args [quote n, int_to_dec cap] @ '');'') =
    \<lparr> type = CH_CREATE, content = [], options = [''name'' \<mapsto> n, ''capacity'' \<mapsto> int_to_dec cap] \<rparr>"
proof -
  have "stoi_or 0 (int_to_dec cap) = cap"
    using sto_int_to_dec [OF assms(2,3)] by (simp add: stoi_or_def stoi_def)
  then show ?thesis
    using extract_call [of "''createChannel''" "[quote n, int_to_dec cap]"] argument_quote [OF assms(1)]
      ParseLine_call [of "''createChannel''" "join_args [quote n, int_to_dec cap]"] argument_dec [of cap]
    by (simp add: ParseLine_def parse_concurrency_def literal_quote new_statement_def set_option_def is_ws_def)
qed

lemma parse_send:
  assumes "plain n" "plain x"
  shows "ParseLine (''sendToChannel'' @ ''('' @ join_args [quote n, quote x] @ '');'') =
    \<lparr> type = CH_SEND, content = [], options = [''name'' \<mapsto> n, ''value'' \<mapsto> x] \<rparr>"
  using extract_call [of "''sendToChannel''" "[quote n, quote x]"] argument_quote [OF assms(1)]
    ParseLine_call [of "''sendToChannel''" "join_args [quote n, quote x]"] argument_quote [OF assms(2)]
  by (simp add: ParseLine_def parse_concurrency_def literal_quote new_statement_def set_option_def is_ws_def)

lemma parse_receive:
  assumes "plain n"
  shows "ParseLine (''receiveFromChannel'' @ ''('' @ join_args [quote n] @ '');'') =
    \<lparr> type = CH_RECV, content = [], options = [''name'' \<mapsto> n] \<rparr>"
  using extract_call [of "''receiveFromChannel''" "[quote n]"] argument_quote [OF assms]
    ParseLine_call [of "''receiveFromChannel''" "join_args [quote n]"]
  by (simp add: ParseLine_def parse_concurrency_def literal_quote new_statement_def set_option_def is_ws_def)

text \<open>
  C25. The channel statements of a script are read back exactly: createChannel with a quoted name
  and an int capacity, sendToChannel with a quoted name and value, and receiveFromChannel give the
  statement with these texts as its options (names and values without quotes and backslashes).
\<close>
theorem channel_statements_roundtrip:
  assumes "plain n" "plain x" "- (2 ^ 31) \<le> cap" "cap < 2 ^ 31"
  shows "ParseLine (''createChannel'' @ ''('' @ join_args [quote n, int_to_dec cap] @ '');'') =
           \<lparr> type = CH_CREATE, content = [], options = [''name'' \<mapsto> n, ''capacity'' \<mapsto> int_to_dec cap] \<rparr>
    \<and> ParseLine (''sendToChannel'' @ ''('' @ join_args [quote n, quote x] @ '');'') =
           \<lparr> type = CH_SEND, content = [], options = [''name'' \<mapsto> n, ''value'' \<mapsto> x] \<rparr>
    \<and> ParseLine (''receiveFromChannel'' @ ''('' @ join_args [quote n] @ '');'') =
           \<lparr> type = CH_RECV, content = [], options = [''name'' \<mapsto> n] \<rparr>"
  using parse_create [OF assms(1,3,4)] parse_send [OF assms(1,2)] parse_receive [OF assms(1)] by blast

theorem channel_statements_roundtrip_witness:
  "ParseLine (''createChannel'' @ ''('' @ join_args [quote ''jobs'', int_to_dec 4] @ '');'') =
     \<lparr> type = CH_CREATE, content = [], options = [''name'' \<mapsto> ''jobs'', ''capacity'' \<mapsto> int_to_dec 4] \<rparr>
   \<and> ParseLine (''sendToChannel'' @ ''('' @ join_args [quote ''jobs'', quote ''a, b''] @ '');'') =
     \<lparr> type = CH_SEND, content = [], options = [''name'' \<mapsto> ''jobs'', ''value'' \<mapsto> ''a, b''] \<rparr>"
  using channel_statements_roundtrip [of "''jobs''" "''a, b''" 4] by (simp add: plain_def)

section \<open>Statements of a program\<close>

lemma parse_concurrency_types:
  "parse_concurrency t = Some s \<Longrightarrow> type s \<in> {KODE_SPAWN, CH_CREATE, CH_SEND, CH_RECV, YIELD_OP, WITH_TIMEOUT}"
  by (auto simp: parse_concurrency_def Let_def set_option_def split: if_splits)

lemma parse_console_error:
  "type (parse_console t) = CONSOLE_ERROR \<Longrightarrow> str_contains ''console.error'' t"
  by (auto simp: parse_console_def Let_def new_statement_def split: option.splits if_splits)

lemma parse_other_types:
  "type (parse_timer t) = SET_TIMEOUT" "type (parse_read ty t) = ty"
  "type (parse_write t) = FS_WRITE_FILE" "type (parse_module t) = REQUIRE"
  by (auto simp: parse_timer_def parse_read_def parse_write_def parse_module_def set_option_def Let_def
      split: option.splits)

lemma ParseLine_error:
  assumes "type (ParseLine l) = CONSOLE_ERROR"
  shows "str_contains ''err'' l"
proof -
  let ?t = "TrimWhitespace (RemoveSemicolons l)"
  have "parse_concurrency ?t = None"
    using assms parse_concurrency_types [of ?t] by (cases "parse_concurrency ?t") (auto simp: ParseLine_def)
  then have "str_contains ''console.error'' ?t"
    using assms parse_console_error [of ?t]
    by (auto simp: ParseLine_def Let_def parse_other_types new_statement_def split: if_splits)
  moreover have "str_contains ''err'' ''console.error''" by code_simp
  moreover have "str_contains ?t (RemoveSemicolons l)"
    using TrimWhitespace_split [of "RemoveSemicolons l"] unfolding str_contains_iff sublist_def by blast
  moreover have "str_contains (RemoveSemicolons l) l"
  proof (cases "l \<noteq> [] \<and> last l = CHR '';''")
    case True
    then have "l = [] @ RemoveSemicolons l @ '';''"
      by (simp add: RemoveSemicolons_def) (metis append_butlast_last_id)
    then show ?thesis unfolding str_contains_iff sublist_def by blast
  qed (simp add: RemoveSemicolons_def str_contains_iff)
  ultimately show ?thesis by (blast intro: str_contains_trans)
qed

lemma err_callback: "str_contains ''err'' l \<Longrightarrow> IsCallbackPattern l"
  by (simp add: IsCallbackPattern_def callback_patterns_def)

text \<open>
  The statements that the runtime can rely on: their numeric options are the decimal text of an
  \<open>int\<close>, which reads back without an exception; a send has both options or none; a file operation
  that reads has a name; a declaration has its text.
\<close>

definition int_option :: "string \<Rightarrow> statement \<Rightarrow> bool" where
  "int_option k s \<longleftrightarrow>
     (case options s k of
        None \<Rightarrow> False
      | Some x \<Rightarrow> (case stoi x of Inl e \<Rightarrow> False | Inr i \<Rightarrow> x = int_to_dec i))"

definition wf_stmt :: "statement \<Rightarrow> bool" where
  "wf_stmt s \<longleftrightarrow>
     (case type s of
        CH_CREATE \<Rightarrow> int_option ''capacity'' s
      | WITH_TIMEOUT \<Rightarrow> int_option ''timeout'' s
      | SET_TIMEOUT \<Rightarrow> int_option ''delay'' s \<and> content s \<noteq> []
      | CH_SEND \<Rightarrow> options s ''name'' = None \<longleftrightarrow> options s ''value'' = None
      | FS_READ_FILE \<Rightarrow> content s \<noteq> []
      | FS_READ_FILE_SYNC \<Rightarrow> content s \<noteq> []
      | CONST_DECLARATION \<Rightarrow> prefix ''const '' (content s)
      | LET_DECLARATION \<Rightarrow> prefix ''let '' (content s)
      | VAR_DECLARATION \<Rightarrow> prefix ''var '' (content s)
      | _ \<Rightarrow> type s \<in> {CONSOLE_LOG, CONSOLE_ERROR, CONSOLE_WARN, CONSOLE_INFO, KODE_SPAWN, CH_RECV,
                       YIELD_OP, FS_WRITE_FILE, REQUIRE})"

lemma stoi_or_int: "- (2 ^ 31) \<le> d \<Longrightarrow> d < 2 ^ 31 \<Longrightarrow> stoi (int_to_dec (stoi_or d x)) = Inr (stoi_or d x)"
  using sto_bounds [of "2 ^ 31" x] sto_int_to_dec [of "2 ^ 31"]
  by (auto simp: stoi_or_def stoi_def split: sum.splits)

lemma stoi_zero: "stoi ''0'' = Inr 0" "int_to_dec 0 = ''0''"
  by code_simp+

lemma str_find_zero: "str_find pat s = Some 0 \<Longrightarrow> prefix pat s"
  using str_find_Some [of pat s 0] by (metis drop0 take_is_prefix)

lemma wf_concurrency: "parse_concurrency t = Some s \<Longrightarrow> wf_stmt s"
  by (auto simp: parse_concurrency_def Let_def set_option_def new_statement_def wf_stmt_def int_option_def
      stoi_or_int stoi_zero split: if_splits)

lemma wf_console: "wf_stmt (parse_console t)"
  by (auto simp: parse_console_def Let_def new_statement_def wf_stmt_def split: option.splits)

lemma wf_timer: "wf_stmt (parse_timer t)"
proof -
  have "stoi (int_to_dec 1000) = Inr 1000" by code_simp
  then show ?thesis
    by (simp add: parse_timer_def Let_def set_option_def new_statement_def wf_stmt_def int_option_def stoi_or_int)
qed

lemma wf_read: "wf_stmt (parse_read FS_READ_FILE t)" "wf_stmt (parse_read FS_READ_FILE_SYNC t)"
  by (simp_all add: parse_read_def Let_def set_option_def new_statement_def wf_stmt_def)

lemma wf_write: "wf_stmt (parse_write t)"
  by (simp add: parse_write_def Let_def set_option_def new_statement_def wf_stmt_def)

lemma wf_module: "wf_stmt (parse_module t)"
  by (auto simp: parse_module_def Let_def new_statement_def wf_stmt_def split: option.splits)

lemmas wf_parts = wf_console wf_timer wf_read wf_write wf_module

lemma wf_declaration:
  "str_find ''const '' t = Some 0 \<Longrightarrow> wf_stmt (new_statement\<lparr>type := CONST_DECLARATION, content := t\<rparr>)"
  "str_find ''let '' t = Some 0 \<Longrightarrow> wf_stmt (new_statement\<lparr>type := LET_DECLARATION, content := t\<rparr>)"
  "str_find ''var '' t = Some 0 \<Longrightarrow> wf_stmt (new_statement\<lparr>type := VAR_DECLARATION, content := t\<rparr>)"
  by (simp_all add: wf_stmt_def str_find_zero)

definition wf_or_unknown :: "statement \<Rightarrow> bool" where
  "wf_or_unknown s \<longleftrightarrow> type s = UNKNOWN \<or> wf_stmt s"

lemma wf_or_unknown_if: "(b \<Longrightarrow> wf_or_unknown x) \<Longrightarrow> (\<not> b \<Longrightarrow> wf_or_unknown y) \<Longrightarrow> wf_or_unknown (if b then x else y)"
  by simp

lemma wf_or_unknownI: "wf_stmt s \<Longrightarrow> wf_or_unknown s" "wf_or_unknown new_statement"
  by (simp_all add: wf_or_unknown_def new_statement_def)

lemma wf_ParseLine: "wf_or_unknown (ParseLine l)"
proof (cases "parse_concurrency (TrimWhitespace (RemoveSemicolons l))")
  case None
  show ?thesis unfolding ParseLine_def Let_def None option.case
    by (intro wf_or_unknown_if wf_or_unknownI(2)) (simp_all only: wf_parts wf_declaration wf_or_unknownI)
next
  case (Some s)
  then show ?thesis by (simp add: ParseLine_def wf_concurrency wf_or_unknownI)
qed

definition parsed_ok :: "statement \<Rightarrow> bool" where
  "parsed_ok s \<longleftrightarrow> wf_stmt s \<and> type s \<noteq> CONSOLE_ERROR"

lemma parse_step_ok: "list_all parsed_ok (statements p) \<Longrightarrow> list_all parsed_ok (statements (parse_step line p))"
  using ParseLine_error [of "TrimWhitespace line"] err_callback [of "TrimWhitespace line"]
    wf_ParseLine [of "TrimWhitespace line"]
  by (auto simp: parse_step_def Let_def parsed_ok_def wf_or_unknown_def)


end
