(* ===== verification/KodeFS.thy ===== *)
theory KodeFS
  imports FileSystem
begin

text \<open>
  \<open>src/filesystem/fs.cc\<close>: the legacy file system module. Its four public operations work
  synchronously on the disk; \<open>OnOpenComplete\<close>, the chain of libuv callbacks behind an asynchronous
  read, has no caller and is modelled by the actions that it performs for the results of libuv.
\<close>

section \<open>The synchronous operations\<close>

text \<open>
  The legacy module: the reply of \<open>ReadFile\<close> is an error text and the data, an empty error
  meaning success.
\<close>

definition ReadFileSync :: "'fs os \<Rightarrow> 'fs \<Rightarrow> string \<Rightarrow> string" where
  "ReadFileSync os fs f = (case open_in os fs f of None \<Rightarrow> [] | Some c \<Rightarrow> c)"

definition ReadFile :: "'fs os \<Rightarrow> 'fs \<Rightarrow> string \<Rightarrow> string \<times> string" where
  "ReadFile os fs f =
     (let c = ReadFileSync os fs f in
      if c = [] then (''File not found or empty: '' @ f, []) else ([], c))"

definition WriteFile :: "'fs os \<Rightarrow> 'fs \<Rightarrow> string \<Rightarrow> string \<Rightarrow> 'fs \<times> string" where
  "WriteFile os fs f c =
     (case open_out os fs f of
        None \<Rightarrow> (fs, ''Failed to open file for writing: '' @ f)
      | Some fs1 \<Rightarrow>
         (case write_close os fs1 f c of
            (fs2, good) \<Rightarrow> (fs2, if good then [] else ''Failed to write to file: '' @ f)))"

definition KodeFS_FileExists :: "'fs os \<Rightarrow> 'fs \<Rightarrow> string \<Rightarrow> bool" where
  "KodeFS_FileExists os fs f \<longleftrightarrow> open_in os fs f \<noteq> None"

section \<open>The chain of OnOpenComplete\<close>

text \<open>
  What libuv answers: the results of opening, of starting and finishing \<open>uv_fs_fstat\<close> with the
  size, of starting and finishing \<open>uv_fs_read\<close>, and the bytes that were read.
\<close>

record uv_answers =
  open_r :: int
  fstat_start :: int
  fstat_r :: int
  st_size :: nat
  read_start :: int
  read_r :: int
  read_bytes :: string

datatype kfs_action =
    ReadCb string string      \<comment> \<open>\<open>op->readCb(error, data)\<close>\<close>
  | NewBuffer nat | DeleteBuffer
  | Log string
  | CloseFile                 \<comment> \<open>\<open>uv_fs_close\<close> of the descriptor\<close>
  | DeleteOp                  \<comment> \<open>\<open>delete op\<close>\<close>

definition on_close :: "kfs_action list" where
  "on_close = [DeleteOp]"

definition on_read :: "(int \<Rightarrow> string) \<Rightarrow> uv_answers \<Rightarrow> kfs_action list" where
  "on_read strerror u =
     (if read_r u < 0 then [ReadCb (''Failed to read file: '' @ strerror (read_r u)) []]
      else [Log (''[FS] Successfully read '' @ int_to_dec (read_r u) @ '' bytes''),
            ReadCb [] (take (nat (read_r u)) (read_bytes u))])
     @ [DeleteBuffer, CloseFile] @ on_close"

definition on_fstat :: "(int \<Rightarrow> string) \<Rightarrow> uv_answers \<Rightarrow> kfs_action list" where
  "on_fstat strerror u =
     (if fstat_r u < 0
      then [ReadCb (''Failed to get file stats: '' @ strerror (fstat_r u)) [], DeleteOp]
      else NewBuffer (st_size u + 1) #
        (if read_start u < 0
         then [ReadCb (''Failed to start read: '' @ strerror (read_start u)) [], DeleteBuffer, DeleteOp]
         else on_read strerror u))"

definition OnOpenComplete :: "(int \<Rightarrow> string) \<Rightarrow> uv_answers \<Rightarrow> kfs_action list" where
  "OnOpenComplete strerror u =
     (if open_r u < 0
      then [ReadCb (''Failed to open file: '' @ strerror (open_r u)) [], DeleteOp]
      else if fstat_start u < 0
      then [ReadCb (''Failed to get file stats: '' @ strerror (fstat_start u)) [], DeleteOp]
      else on_fstat strerror u)"

lemmas open_chain = OnOpenComplete_def on_fstat_def on_read_def on_close_def

section \<open>Properties\<close>

definition is_read_cb :: "kfs_action \<Rightarrow> bool" where
  "is_read_cb a \<longleftrightarrow> (case a of ReadCb e d \<Rightarrow> True | _ \<Rightarrow> False)"

definition is_new_buffer :: "kfs_action \<Rightarrow> bool" where
  "is_new_buffer a \<longleftrightarrow> (case a of NewBuffer n \<Rightarrow> True | _ \<Rightarrow> False)"

text \<open>
  On every path of the callback chain of KodeFS the callback of the operation is called exactly
  once, the operation is freed exactly once, as the last action and after the callback, and a
  buffer is freed exactly when it was allocated.
\<close>
theorem open_chain_once:
  "length (filter is_read_cb (OnOpenComplete strerror u)) = 1
   \<and> count_list (OnOpenComplete strerror u) DeleteOp = 1
   \<and> last (OnOpenComplete strerror u) = DeleteOp
   \<and> count_list (OnOpenComplete strerror u) DeleteBuffer
       = length (filter is_new_buffer (OnOpenComplete strerror u))"
  by (simp add: open_chain is_read_cb_def is_new_buffer_def)

text \<open>The descriptor of an opened file is closed only when the read could be started.\<close>

lemma open_chain_leaks:
  assumes "0 \<le> open_r u"
  shows "CloseFile \<in> set (OnOpenComplete strerror u)
    \<longleftrightarrow> 0 \<le> fstat_start u \<and> 0 \<le> fstat_r u \<and> 0 \<le> read_start u"
  using assms by (auto simp: open_chain)

text \<open>
  The legacy KodeFS.ReadFile cannot report an empty file: it succeeds exactly when the file can
  be opened and is not empty, and an existing empty file gets the same error as a missing one.
\<close>
theorem kodefs_read_empty_is_error:
  "fst (ReadFile os fs f) = [] \<longleftrightarrow> (\<exists>c. open_in os fs f = Some c \<and> c \<noteq> [] \<and> snd (ReadFile os fs f) = c)"
  by (auto simp: ReadFile_def ReadFileSync_def Let_def split: option.splits)

end
