(* ===== verification/Runtime.thy ===== *)
theory Runtime
  imports Parser KodeFS Timeout Engine
begin

text \<open>
  \<open>src/core/runtime.cc\<close> and the \<open>ExecuteStatement\<close> of \<open>src/parser/parser.cc\<close>: the
  statements of the line-oriented parser on the runtime's state (named channels, timers, the
  scheduler of the concurrency runtime, file operations, output), the life cycle, and running a script
  with the engine.
\<close>

section \<open>KodeRuntime\<close>

record 'fs runtime =
  channels :: "string \<rightharpoonup> string channel"
  timers :: "(string \<times> u64) list"          \<comment> \<open>message and delay given to \<open>uv_timer_start\<close>\<close>
  concurrency_runtime :: conc_runtime
  fs_ops :: "async_op list"                \<comment> \<open>operations handed to ModernFS\<close>
  disk_now :: 'fs
  cout :: "string list"

definition print_line :: "string \<Rightarrow> 'fs runtime \<Rightarrow> 'fs runtime" where
  "print_line t r = r\<lparr>cout := cout r @ [t]\<rparr>"

definition setTimeout :: "string \<Rightarrow> int \<Rightarrow> 'fs runtime \<Rightarrow> 'fs runtime" where
  "setTimeout message delay_ms r =
     print_line (''Timer set for '' @ int_to_dec delay_ms @ ''ms: '' @ message)
       (r\<lparr>timers := timers r @ [(message, of_int delay_ms)]\<rparr>)"

definition onTimer :: "string \<Rightarrow> 'fs runtime \<Rightarrow> 'fs runtime" where
  "onTimer message r = print_line (''Timer fired: '' @ message) r"

text \<open>
  What the calls into the scheduler and libuv take from their surroundings: the memory of new task
  objects, the clock, the address of a new stack, what running a script as a task does (as a fiber),
  the outcome of the watchdog's race, the worker that executes the statement (if one does), and the
  result of \<open>uv_queue_work\<close>.
\<close>

record surroundings =
  raw_task :: task
  raw_dog :: task
  clock :: nat
  stack_data :: u64
  script_fiber :: "string \<Rightarrow> string \<Rightarrow> fiber"   \<comment> \<open>code and file name\<close>
  is_late :: bool
  dog_expires :: bool
  on_worker :: "nat option"
  queue_result :: int
  uv_strerror :: "int \<Rightarrow> string"

text \<open>A left value is the message of an exception that leaves the call.\<close>

definition spawnTask :: "surroundings \<Rightarrow> string \<Rightarrow> 'fs runtime \<Rightarrow> string + 'fs runtime" where
  "spawnTask env js_code r =
     (case rt_kode (raw_task env) (clock env) (stack_data env) (script_fiber env js_code ''concurrent-task'')
             (concurrency_runtime r) of
        Inl e \<Rightarrow> Inl e
      | Inr (t, c) \<Rightarrow> Inr (r\<lparr>concurrency_runtime := c\<rparr>))"

definition yieldTask :: "surroundings \<Rightarrow> 'fs runtime \<Rightarrow> string + 'fs runtime" where
  "yieldTask env r =
     (case rt_yield (on_worker env) (clock env) (concurrency_runtime r) of
        Inl e \<Rightarrow> Inl e
      | Inr c \<Rightarrow> Inr (r\<lparr>concurrency_runtime := c\<rparr>))"

definition createChannel :: "string \<Rightarrow> u64 \<Rightarrow> 'fs runtime \<Rightarrow> 'fs runtime" where
  "createChannel n cap r = r\<lparr>channels := (channels r)(n \<mapsto> new_channel (unat cap))\<rparr>"

text \<open>\<^term>\<open>None\<close>: the call blocks in the channel.\<close>

definition sendToChannel :: "string \<Rightarrow> string \<Rightarrow> 'fs runtime \<Rightarrow> 'fs runtime option" where
  "sendToChannel n x r =
     (case channels r n of
        None \<Rightarrow> Some (print_line (''Error: Channel '' @ q1 n @ '' not found'') r)
      | Some c \<Rightarrow>
         (case send x c of
            None \<Rightarrow> None
          | Some (sent, c') \<Rightarrow> Some (r\<lparr>channels := (channels r)(n \<mapsto> c')\<rparr>)))"

definition receiveFromChannel :: "string \<Rightarrow> 'fs runtime \<Rightarrow> (string \<times> 'fs runtime) option" where
  "receiveFromChannel n r =
     (case channels r n of
        None \<Rightarrow> Some ([], print_line (''Error: Channel '' @ q1 n @ '' not found'') r)
      | Some c \<Rightarrow>
         (case receive c of
            None \<Rightarrow> None
          | Some (y, c') \<Rightarrow>
              Some (case y of Some x \<Rightarrow> x | None \<Rightarrow> [], r\<lparr>channels := (channels r)(n \<mapsto> c')\<rparr>)))"

definition spawnTaskWithTimeout :: "surroundings \<Rightarrow> int \<Rightarrow> string \<Rightarrow> 'fs runtime \<Rightarrow> string + 'fs runtime" where
  "spawnTaskWithTimeout env ms js_code r =
     (case with_timeout (raw_task env) (raw_dog env) (clock env) (stack_data env) (is_late env) (dog_expires env) ms
             (script_fiber env js_code ''withTimeout-task'') (concurrency_runtime r) of
        Inl e \<Rightarrow> Inl e
      | Inr (t, c) \<Rightarrow> Inr (r\<lparr>concurrency_runtime := c\<rparr>))"

definition option_or :: "string \<Rightarrow> statement \<Rightarrow> string \<Rightarrow> string" where
  "option_or k stmt dflt = (case options stmt k of Some x \<Rightarrow> x | None \<Rightarrow> dflt)"

definition usage_lines :: "string list" where
  "usage_lines =
     [''[Runtime] Unknown statement - available commands:'',
      ''  console.log('' @ q1 ''message'' @ '')'',
      ''  setTimeout()'',
      ''  fs.readFile('' @ q1 ''filename'' @ '', callback)'',
      ''  fs.writeFile('' @ q1 ''filename'' @ '', '' @ q1 ''content'' @ '', callback)'',
      ''  fs.readFileSync('' @ q1 ''filename'' @ '')'']"

definition capacity_of :: "statement \<Rightarrow> u64" where
  "capacity_of stmt =
     (case options stmt ''capacity'' of
        None \<Rightarrow> 0
      | Some s \<Rightarrow> (case stoll s of Inr i \<Rightarrow> of_int i | Inl e \<Rightarrow> 0))"

definition exec_receive :: "string \<Rightarrow> 'fs runtime \<Rightarrow> 'fs runtime option" where
  "exec_receive n r =
     map_option (\<lambda>(val, r1). if val \<noteq> [] then print_line (''Received: '' @ val) r1 else r1)
       (receiveFromChannel n r)"

text \<open>The output of the callbacks that \<open>ExecuteStatement\<close> gives to ModernFS.\<close>

definition fs_done :: "fs_reply \<Rightarrow> 'fs runtime \<Rightarrow> 'fs runtime" where
  "fs_done reply r =
     (case reply of
        ReadReply x \<Rightarrow>
          if rd_success x then print_line (''[FileInfo] '' @ toJSON (rd_info x)) (print_line (rd_content x) r)
          else print_line (''Error: '' @ rd_error x) r
      | WriteReply x \<Rightarrow>
          if wr_success x then print_line (''[FileInfo] '' @ toJSON (wr_info x))
            (print_line (''Successfully wrote '' @ nat_to_dec (wr_bytes x) @ '' bytes'') r)
          else print_line (''Error: '' @ wr_error x) r
      | InfoReply i e \<Rightarrow> r)"

text \<open>
  \<open>ModernFS::readFile\<close> and \<open>writeFile\<close> with these callbacks: the announcement, then a queued operation, or
  the callback at once when the submission fails.
\<close>

definition start_op :: "surroundings \<Rightarrow> async_op \<Rightarrow> 'fs runtime \<Rightarrow> 'fs runtime" where
  "start_op env op r =
     (let r1 = print_line (announce op) r in
      case submit (uv_strerror env) (queue_result env) op of
        None \<Rightarrow> r1\<lparr>fs_ops := fs_ops r1 @ [op]\<rparr>
      | Some reply \<Rightarrow> fs_done reply r1)"

text \<open>\<^term>\<open>None\<close>: the statement blocks; a left value: an exception leaves it.\<close>

definition ExecuteStatement ::
  "surroundings \<Rightarrow> 'fs os \<Rightarrow> statement \<Rightarrow> 'fs runtime \<Rightarrow> (string + 'fs runtime \<times> bool) option" where
  "ExecuteStatement env os stmt r =
     (let done = (\<lambda>r1. Inr (r1, True)); ok = (\<lambda>r1. Some (done r1)) in
      case type stmt of
        CONSOLE_LOG \<Rightarrow> ok (print_line (content stmt) r)
      | SET_TIMEOUT \<Rightarrow>
          ok (setTimeout ''Timeout callback executed!''
            (case options stmt ''delay'' of None \<Rightarrow> 1000 | Some s \<Rightarrow> stoi_or 1000 s) r)
      | FS_READ_FILE \<Rightarrow> ok (start_op env (read_op (content stmt)) r)
      | FS_READ_FILE_SYNC \<Rightarrow>
          (let c = ReadFileSync os (disk_now r) (content stmt);
               r1 = print_line (''[FS] Synchronous read of: '' @ content stmt) r
           in ok (print_line (if c \<noteq> [] then c else ''Error: Could not read file '' @ content stmt) r1))
      | FS_WRITE_FILE \<Rightarrow>
          ok (start_op env (write_op (content stmt)
            (option_or ''content'' stmt ''Hello from Kode Runtime with Modern FS!'') True) r)
      | KODE_SPAWN \<Rightarrow>
          if content stmt \<noteq> [] then Some (case spawnTask env (content stmt) r of Inl e \<Rightarrow> Inl e | Inr r1 \<Rightarrow> done r1)
          else ok r
      | CH_CREATE \<Rightarrow>
          (let n = option_or ''name'' stmt []
           in ok (if n \<noteq> [] then createChannel n (capacity_of stmt) r else r))
      | CH_SEND \<Rightarrow>
          (let n = option_or ''name'' stmt []
           in map_option done (if n \<noteq> [] then sendToChannel n (option_or ''value'' stmt []) r else Some r))
      | CH_RECV \<Rightarrow>
          (let n = option_or ''name'' stmt []
           in map_option done (if n \<noteq> [] then exec_receive n r else Some r))
      | YIELD_OP \<Rightarrow> Some (case yieldTask env r of Inl e \<Rightarrow> Inl e | Inr r1 \<Rightarrow> done r1)
      | WITH_TIMEOUT \<Rightarrow>
          Some (case spawnTaskWithTimeout env
                       (case options stmt ''timeout'' of None \<Rightarrow> 0 | Some s \<Rightarrow> stoi_or 0 s) (content stmt) r of
                  Inl e \<Rightarrow> Inl e
                | Inr r1 \<Rightarrow> done r1)
      | REQUIRE \<Rightarrow> ok r
      | CONST_DECLARATION \<Rightarrow> ok r
      | LET_DECLARATION \<Rightarrow> ok r
      | VAR_DECLARATION \<Rightarrow> ok r
      | _ \<Rightarrow> Some (Inr (fold print_line usage_lines r, False)))"

section \<open>The parser's own ExecuteStatement\<close>

definition parser_execute :: "'fs os \<Rightarrow> statement \<Rightarrow> 'fs \<Rightarrow> 'fs \<times> string list \<times> bool" where
  "parser_execute os stmt fs =
     (let p = content stmt in
      case type stmt of
        CONSOLE_LOG \<Rightarrow> (fs, [p], True)
      | CONSOLE_ERROR \<Rightarrow> (fs, [p], True)
      | CONSOLE_WARN \<Rightarrow> (fs, [p], True)
      | CONSOLE_INFO \<Rightarrow> (fs, [p], True)
      | SET_TIMEOUT \<Rightarrow> (fs, [''[Parser] setTimeout detected - would set timer''], True)
      | FS_READ_FILE \<Rightarrow>
          (case ReadFile os fs p of (err, data) \<Rightarrow>
             (fs, [''[Parser] Reading file asynchronously: '' @ p, ''[FS] Reading file: '' @ p,
                   ''[FS] Synchronous read of: '' @ p,
                   if err \<noteq> [] then ''Error: '' @ err else data], True))
      | FS_READ_FILE_SYNC \<Rightarrow>
          (let c = ReadFileSync os fs p in
           (fs, [''[Parser] Reading file synchronously: '' @ p, ''[FS] Synchronous read of: '' @ p,
                 if c \<noteq> [] then c else ''Error: Could not read file '' @ p], True))
      | FS_WRITE_FILE \<Rightarrow>
          (case WriteFile os fs p (option_or ''content'' stmt ''Hello from Kode Runtime!'') of (fs', err) \<Rightarrow>
             (fs', [''[Parser] Writing file asynchronously: '' @ p, ''[FS] Writing file: '' @ p]
                   @ (if err = [] then [''[FS] Successfully wrote to: '' @ p] else [])
                   @ [if err \<noteq> [] then ''Error: '' @ err else ''File written successfully''], True))
      | REQUIRE \<Rightarrow> (fs, [''[Parser] Requiring module: '' @ p], True)
      | CONST_DECLARATION \<Rightarrow> (fs, [''[Parser] Variable declaration: '' @ p], True)
      | LET_DECLARATION \<Rightarrow> (fs, [''[Parser] Variable declaration: '' @ p], True)
      | VAR_DECLARATION \<Rightarrow> (fs, [''[Parser] Variable declaration: '' @ p], True)
      | _ \<Rightarrow> (fs, [''[Parser] Unknown statement type''], False))"

section \<open>Running scripts\<close>

text \<open>
  \<open>ExecuteString\<close>: the value of \<open>KODE_USE_V8\<close>, whether V8 is built in, and the result and error text
  of the engine's \<open>runScript\<close>; success and what is printed.
\<close>

datatype out_line = Cout string | Cerr string

definition ExecuteString :: "string option \<Rightarrow> bool \<Rightarrow> string \<times> string \<Rightarrow> bool \<times> out_line list" where
  "ExecuteString kode_use_v8 has_v8 res =
     (if kode_use_v8 = Some ''0'' then (False, [Cerr ''V8 is required for JavaScript execution''])
      else if \<not> has_v8 then (False, [Cerr ''V8 is required for JavaScript execution''])
      else (case res of (result, err) \<Rightarrow>
              if err \<noteq> [] then (False, [Cerr (''[V8] Error: '' @ err)])
              else (True, if result \<noteq> [] then [Cout result] else [])))"

definition ExecuteFile ::
  "'fs os \<Rightarrow> 'fs \<Rightarrow> (string \<Rightarrow> string \<Rightarrow> bool \<times> out_line list) \<Rightarrow> string \<Rightarrow> bool \<times> out_line list" where
  "ExecuteFile os fs execute_string f =
     (case open_in os fs f of
        None \<Rightarrow> (False, [Cerr (''Cannot open file: '' @ f)])
      | Some source \<Rightarrow> execute_string source f)"

section \<open>Life cycle\<close>

text \<open>
  What \<open>SetInvocation\<close>, \<open>Initialize\<close> and \<open>Shutdown\<close> work on: the invocation, the scheduler of the
  concurrency runtime and the engine. \<open>hw\<close> is the hardware concurrency.
\<close>

record kode =
  invocation_opts :: runtime_options
  conc :: conc_runtime
  eng :: engine

definition SetInvocation :: "string \<Rightarrow> string \<Rightarrow> string list \<Rightarrow> kode \<Rightarrow> kode" where
  "SetInvocation exe scr us k =
     k\<lparr>invocation_opts := \<lparr> executable = exe, script = scr, user_args = us \<rparr>\<rparr>"

definition Initialize ::
  "v8 \<Rightarrow> v8_init \<Rightarrow> string list \<Rightarrow> nat \<Rightarrow> string option \<Rightarrow> bool \<Rightarrow> kode \<Rightarrow> kode \<times> out_line list \<times> bool" where
  "Initialize v i environ hw kode_use_v8 has_v8 k =
     (let banner = Cout ''[ModernFS] Next-generation file system initialized'' in
      case rt_initialize hw 0 (conc k) of
        (c, False) \<Rightarrow> (k\<lparr>conc := c\<rparr>, [banner, Cerr ''Failed to initialize concurrency runtime''], False)
      | (c, True) \<Rightarrow>
         (let k1 = k\<lparr>conc := c\<rparr> in
          if kode_use_v8 = Some ''0'' \<or> \<not> has_v8 then (k1, [banner], True)
          else (case initialize v i environ (setEventLoop True (setRuntimeOptions (invocation_opts k) (eng k))) of
                  (e, ok, err) \<Rightarrow>
                    (k1\<lparr>eng := e\<rparr>, banner # (if ok then [] else [Cerr (''V8 init failed: '' @ err)]), True))))"

text \<open>\<open>Shutdown\<close>: \<^term>\<open>None\<close> while a task is still running.\<close>

definition Shutdown :: "bool \<Rightarrow> kode \<Rightarrow> kode option" where
  "Shutdown has_v8 k =
     map_option (\<lambda>c. k\<lparr>conc := c, eng := (if has_v8 then shutdown (eng k) else eng k)\<rparr>) (rt_shutdown (conc k))"

definition waitAllTasks :: "kode \<Rightarrow> unit option" where
  "waitAllTasks k = rt_join_all (conc k)"

lemma shutdown_waits: "Shutdown h k = Some k' \<Longrightarrow> scheduler (conc k) = Some s \<Longrightarrow> active_tasks s = 0"
  by (auto simp: Shutdown_def rt_shutdown_def wait_all_returns_def split: if_splits)

lemma initialize_tolerates_v8: "Initialize v i environ hw u h k = (k', out, b) \<Longrightarrow> b"
  by (auto simp: Initialize_def rt_initialize_def Let_def split: if_splits prod.splits)

text \<open>
  A bootstrap script that fails makes \<open>Initialize\<close> print a line and succeed; the isolate is set and there is
  no context, and running a script then enters an empty handle.
\<close>

lemma failed_bootstrap_unnoticed:
  assumes "\<not> isolate (eng k)" "js_context (eng k) = None" "isolate_ok i"
    "compile_error i = Some err \<or> run_error i = Some err" "u \<noteq> Some ''0''"
  shows "\<exists>k' out. Initialize v i environ hw u True k = (k', out, True)
    \<and> runScript v ev compile_run cwd src f (eng k') l = None"
proof -
  let ?e = "setEventLoop True (setRuntimeOptions (invocation_opts k) (eng k))"
  have "\<not> isolate ?e" "js_context ?e = None" using assms by (simp_all add: setEventLoop_def setRuntimeOptions_def)
  with assms(3,4) obtain e1 msg where "initialize v i environ ?e = (e1, False, msg)" "js_context e1 = None" "isolate e1"
    by (cases "compile_error i") (auto simp: initialize_def InstallKodeRuntimeBootstrap_def)
  with assms(5) show ?thesis
    by (simp add: Initialize_def rt_initialize_def runScript_def Let_def)
qed

section \<open>Scripts of channel statements\<close>

fun exec_lines :: "surroundings \<Rightarrow> 'fs os \<Rightarrow> string list \<Rightarrow> 'fs runtime \<Rightarrow> (string + 'fs runtime) option" where
  "exec_lines env os [] r = Some (Inr r)"
| "exec_lines env os (l # ls) r =
     (case ExecuteStatement env os (ParseLine l) r of
        None \<Rightarrow> None
      | Some (Inl e) \<Rightarrow> Some (Inl e)
      | Some (Inr (r', b)) \<Rightarrow> exec_lines env os ls r')"

abbreviation create_line :: "string \<Rightarrow> int \<Rightarrow> string" where
  "create_line n cap \<equiv> ''createChannel'' @ ''('' @ join_args [quote n, int_to_dec cap] @ '');''"

abbreviation send_line :: "string \<Rightarrow> string \<Rightarrow> string" where
  "send_line n x \<equiv> ''sendToChannel'' @ ''('' @ join_args [quote n, quote x] @ '');''"

abbreviation receive_line :: "string \<Rightarrow> string" where
  "receive_line n \<equiv> ''receiveFromChannel'' @ ''('' @ join_args [quote n] @ '');''"

lemma exec_lines_append:
  "exec_lines env os (ls @ ms) r =
     (case exec_lines env os ls r of None \<Rightarrow> None | Some (Inl e) \<Rightarrow> Some (Inl e) | Some (Inr r') \<Rightarrow> exec_lines env os ms r')"
  by (induction ls arbitrary: r) (auto split: option.split sum.split)

lemma exec_create:
  assumes "plain n" "n \<noteq> []" "0 \<le> cap" "cap < 2 ^ 31"
  shows "ExecuteStatement env os (ParseLine (create_line n cap)) r
    = Some (Inr (r\<lparr>channels := (channels r)(n \<mapsto> new_channel (nat cap))\<rparr>, True))"
proof -
  have "stoll (int_to_dec cap) = Inr cap" using sto_int_to_dec [of "2 ^ 63" cap] assms by (simp add: stoll_def)
  moreover have "unat (of_int cap :: u64) = nat cap"
    using assms unat_of_nat [of "nat cap", where 'a = 64] by simp
  ultimately show ?thesis using assms parse_create [of n cap]
    by (simp add: ExecuteStatement_def option_or_def capacity_of_def createChannel_def)
qed

lemma exec_send:
  assumes "plain n" "n \<noteq> []" "plain x" "channels r n = Some c"
  shows "ExecuteStatement env os (ParseLine (send_line n x)) r
    = map_option (\<lambda>(b, c'). Inr (r\<lparr>channels := (channels r)(n \<mapsto> c')\<rparr>, True)) (send x c)"
  using assms parse_send [of n x]
  by (simp add: ExecuteStatement_def option_or_def sendToChannel_def split: option.split)

lemma exec_recv:
  assumes "plain n" "n \<noteq> []" "channels r n = Some c" "buffer c = x # xs"
  shows "\<exists>r'. ExecuteStatement env os (ParseLine (receive_line n)) r = Some (Inr (r', True))
    \<and> channels r' n = Some (c\<lparr>buffer := xs\<rparr>)
    \<and> cout r' = cout r @ (if x = [] then [] else [''Received: '' @ x])"
  using assms parse_receive [of n]
  by (simp add: ExecuteStatement_def option_or_def exec_receive_def receiveFromChannel_def receive_def
      recv_ready_def print_line_def)

definition room :: "string list \<Rightarrow> string channel \<Rightarrow> bool" where
  "room xs c \<longleftrightarrow> capacity c = 0 \<or> length (buffer c) + length xs \<le> capacity c"

lemma exec_sends:
  assumes "plain n" "n \<noteq> []" "list_all plain xs" "channels r n = Some c" "\<not> channel.closed c"
    "capacity c = 0 \<or> length (buffer c) \<le> capacity c"
  shows "if room xs c
    then \<exists>r'. exec_lines env os (map (send_line n) xs) r = Some (Inr r') \<and> cout r' = cout r
           \<and> channels r' n = Some (c\<lparr>buffer := buffer c @ xs\<rparr>)
    else exec_lines env os (map (send_line n) xs) r = None"
  using assms(3-)
proof (induction xs arbitrary: r c)
  case Nil
  then show ?case by (simp add: room_def)
next
  case (Cons x xs)
  show ?case
  proof (cases "capacity c = 0 \<or> length (buffer c) < capacity c")
    case True
    let ?c = "c\<lparr>buffer := buffer c @ [x]\<rparr>"
    let ?r = "r\<lparr>channels := (channels r)(n \<mapsto> ?c)\<rparr>"
    have "send x c = Some (True, ?c)"
      using True Cons.prems by (auto simp: send_def send_resume_def send_ready_def push_value_def queue_push_def)
    then have e: "ExecuteStatement env os (ParseLine (send_line n x)) r = Some (Inr (?r, True))"
      using exec_send [OF assms(1,2) _ Cons.prems(2), of x env os] Cons.prems(1) by simp
    have "room (x # xs) c = room xs ?c" by (simp add: room_def)
    with e Cons.IH [of ?r ?c] Cons.prems True show ?thesis by (auto simp del: append.simps split: if_splits)
  next
    case False
    then have "send x c = None" "\<not> room (x # xs) c"
      using Cons.prems by (auto simp: send_def send_resume_def send_ready_def room_def)
    with exec_send [OF assms(1,2) _ Cons.prems(2), of x env os] Cons.prems(1) show ?thesis
      by (simp del: append.simps)
  qed
qed

lemma exec_receives:
  assumes "plain n" "n \<noteq> []" "channels r n = Some c" "buffer c = xs"
  shows "\<exists>r'. exec_lines env os (replicate (length xs) (receive_line n)) r = Some (Inr r')
    \<and> cout r' = cout r @ map (\<lambda>x. ''Received: '' @ x) (filter (\<lambda>x. x \<noteq> []) xs)"
  using assms(3,4)
proof (induction xs arbitrary: r c)
  case (Cons x xs)
  obtain r1 where "ExecuteStatement env os (ParseLine (receive_line n)) r = Some (Inr (r1, True))"
    "channels r1 n = Some (c\<lparr>buffer := xs\<rparr>)" "cout r1 = cout r @ (if x = [] then [] else [''Received: '' @ x])"
    using exec_recv [OF assms(1,2) Cons.prems, of env os] by blast
  with Cons.IH [of r1 "c\<lparr>buffer := xs\<rparr>"] show ?case by (auto simp del: append.simps)
qed simp


definition empty_runtime :: "(string \<rightharpoonup> string) runtime" where
  "empty_runtime = \<lparr> channels = Map.empty, timers = [], concurrency_runtime = \<lparr> scheduler = None \<rparr>, fs_ops = [],
     disk_now = Map.empty, cout = [] \<rparr>"

definition demo_env :: surroundings where
  "demo_env = \<lparr> raw_task = sample_task, raw_dog = sample_task, clock = 0, stack_data = 0,
     script_fiber = (\<lambda>c f. Done), is_late = False, dog_expires = False, on_worker = None,
     queue_result = 0, uv_strerror = (\<lambda>i. []) \<rparr>"


section \<open>Statements that spawn tasks\<close>

text \<open>
  Kode.spawn and withTimeout on a started runtime reach the scheduler: the code of the statement
  becomes one new task (two for withTimeout, the second one the watchdog), with fresh ids, at the end of the
  global queue, counted and registered for cancellation; nothing else of the runtime changes. On a
  runtime without a scheduler both raise.
\<close>
theorem spawn_statements:
  fixes r :: "'fs runtime"
  assumes "content stmt \<noteq> []"
  shows "(type stmt = KODE_SPAWN \<longrightarrow>
      (case scheduler (concurrency_runtime r) of
         None \<Rightarrow> ExecuteStatement env os stmt r = Some (Inl ''ConcurrencyRuntime not initialized'')
       | Some s \<Rightarrow> \<exists>s1. ExecuteStatement env os stmt r
             = Some (Inr (r\<lparr>concurrency_runtime := (concurrency_runtime r)\<lparr>scheduler := Some s1\<rparr>\<rparr>, True))
           \<and> global_queue s1 = global_queue s @ [next_task_id s] \<and> active_tasks s1 = active_tasks s + 1
           \<and> map_option code (sched.tasks s1 (next_task_id s)) = Some (script_fiber env (content stmt) ''concurrent-task'')
           \<and> next_task_id s \<in> active_task_map s1))
    \<and> (type stmt = WITH_TIMEOUT \<longrightarrow>
      (case scheduler (concurrency_runtime r) of
         None \<Rightarrow> ExecuteStatement env os stmt r = Some (Inl ''ConcurrencyRuntime not initialized'')
       | Some s \<Rightarrow> \<exists>s1. ExecuteStatement env os stmt r
             = Some (Inr (r\<lparr>concurrency_runtime := (concurrency_runtime r)\<lparr>scheduler := Some s1\<rparr>\<rparr>, True))
           \<and> global_queue s1 = global_queue s @ [next_task_id s, next_task_id s + 1]
           \<and> active_tasks s1 = active_tasks s + 2 \<and> next_task_id s \<in> active_task_map s1))"
proof (cases "scheduler (concurrency_runtime r)")
  case None
  then show ?thesis using assms
    by (simp add: ExecuteStatement_def spawnTask_def spawnTaskWithTimeout_def rt_kode_def with_timeout_def)
next
  case (Some s)
  obtain t s1 where sp: "spawn (raw_task env) (clock env) (stack_data env)
      (script_fiber env (content stmt) ''concurrent-task'') s = (t, s1)" by fastforce
  have "type stmt = KODE_SPAWN \<Longrightarrow> ExecuteStatement env os stmt r
      = Some (Inr (r\<lparr>concurrency_runtime := (concurrency_runtime r)\<lparr>scheduler := Some s1\<rparr>\<rparr>, True))"
    using assms Some sp by (simp add: ExecuteStatement_def spawnTask_def rt_kode_def)
  moreover have "\<exists>s2. ExecuteStatement env os stmt r
        = Some (Inr (r\<lparr>concurrency_runtime := (concurrency_runtime r)\<lparr>scheduler := Some s2\<rparr>\<rparr>, True))
      \<and> global_queue s2 = global_queue s @ [next_task_id s, next_task_id s + 1]
      \<and> active_tasks s2 = active_tasks s + 2 \<and> next_task_id s \<in> active_task_map s2" if "type stmt = WITH_TIMEOUT"
    using that with_timeout_spawns [OF Some, of "raw_task env" "raw_dog env" "clock env" "stack_data env" "is_late env"
        "dog_expires env" "case options stmt ''timeout'' of None \<Rightarrow> 0 | Some x \<Rightarrow> stoi_or 0 x"
        "script_fiber env (content stmt) ''withTimeout-task''"]
    by (auto simp: ExecuteStatement_def spawnTaskWithTimeout_def)
  ultimately show ?thesis using Some spawn_fields [OF sp] by auto
qed

text \<open>A negative capacity wraps: the channel is bounded by \<open>2^64 - 1\<close> instead of refused.\<close>

lemma negative_capacity_wraps:
  "capacity_of \<lparr> type = CH_CREATE, content = [], options = [''capacity'' \<mapsto> ''-1''] \<rparr> = - 1"
proof -
  have "stoll ''-1'' = Inr (- 1)" by code_simp
  then show ?thesis by (simp add: capacity_of_def)
qed

text \<open>The runtime treats the console methods other than log as unknown statements.\<close>

lemma console_warn_unknown:
  "type stmt = CONSOLE_WARN \<Longrightarrow> ExecuteStatement env os stmt r = Some (Inr (fold print_line usage_lines r, False))"
  by (simp add: ExecuteStatement_def)

end
