(* ===== verification/CommandLine.thy ===== *)
theory CommandLine
  imports Runtime
begin

text \<open>
  \<open>src/main.cc\<close>: the options, the usage text, and \<open>main\<close> as a whole: it records the invocation,
  initialises the runtime, runs the program that the options ask for, drains the event loop, shuts
  the runtime down and returns the exit status. The state of a process is that of the runtime and of
  the event loop; what a script prints itself belongs to the event loop's side. A run that does not
  end (or ends with an uncaught C++ exception) gives no result.
\<close>

section \<open>Options\<close>

record invocation =
  inv_script :: string
  inv_code :: string
  inv_args :: "string list"
  execute_code :: bool
  show_demo :: bool
  show_help :: bool
  show_version :: bool
  unknown_option :: "string option"

definition no_invocation :: invocation where
  "no_invocation = \<lparr> inv_script = [], inv_code = [], inv_args = [], execute_code = False, show_demo = False,
     show_help = False, show_version = False, unknown_option = None \<rparr>"

text \<open>The arguments after the program name; every branch of the loop leaves it.\<close>

fun parse_args :: "string list \<Rightarrow> invocation" where
  "parse_args [] = no_invocation\<lparr>show_demo := True\<rparr>"
| "parse_args (arg # rest) =
     (if arg = ''-h'' \<or> arg = ''--help'' then no_invocation\<lparr>show_help := True\<rparr>
      else if arg = ''-v'' \<or> arg = ''--version'' then no_invocation\<lparr>show_version := True\<rparr>
      else if arg = ''-e'' \<and> rest \<noteq> []
      then no_invocation\<lparr>inv_code := hd rest, execute_code := True, inv_args := tl rest\<rparr>
      else if arg \<noteq> [] \<and> hd arg \<noteq> CHR ''-''
      then no_invocation\<lparr>inv_script := arg, inv_args := rest\<rparr>
      else no_invocation\<lparr>unknown_option := Some arg\<rparr>)"

definition PrintUsage :: "string \<Rightarrow> out_line list" where
  "PrintUsage program_name =
     [Cout (''Usage: '' @ program_name @ '' [options] [script.js]''),
      Cout ''Options:'',
      Cout ''  -h, --help     Show this help message'',
      Cout ''  -v, --version  Show version information'',
      Cout ''  -e <code>      Execute JavaScript code directly'',
      Cout [],
      Cout ''Examples:'',
      Cout (''  '' @ program_name @ '' script.js''),
      Cout (''  '' @ program_name @ '' -e '' @ [CHR 0x22] @ ''console.log('' @ q1 ''Hello World'' @ '')'' @ [CHR 0x22])]"

definition version_lines :: "out_line list" where
  "version_lines =
     [Cout ''Kode Runtime v0.1.0'', Cout ''Learning JavaScript runtime built with libuv'',
      Cout ''Modular architecture: Core + Parser + FileSystem + Examples'']"

text \<open>The demo: each source is printed after its heading; \<open>std::endl\<close> and a newline give two lines.\<close>

definition demo_steps :: "(out_line list \<times> string list) list" where
  "demo_steps =
     [([Cout [], Cout ''1. Synchronous operations:''], [''console.log('' @ q1 ''Hello from Kode!'' @ '')'', ''1 + 1'']),
      ([Cout [], Cout ''2. Asynchronous operations (setTimeout):''], [''setTimeout()'']),
      ([Cout [], Cout ''3. File system operations:'', Cout ''   a) Synchronous file read (blocks):''],
         [''fs.readFileSync()'']),
      ([Cout [], Cout ''   b) Asynchronous file read (non-blocking):''], [''fs.readFile()'']),
      ([Cout [], Cout ''   c) Asynchronous file write:''], [''fs.writeFile()''])]"

section \<open>Running programs in a process\<close>

text \<open>What a process runs in: V8, the environment, the event loop, compiling and running, the disk.\<close>

record ('fs, 'l) host =
  h_build :: build
  h_v8 :: v8
  h_init :: v8_init
  h_environ :: "string list"
  h_hardware :: nat
  h_use_v8 :: "string option"       \<comment> \<open>the value of \<open>KODE_USE_V8\<close>\<close>
  h_loop :: "'l evloop"
  h_run :: "string \<Rightarrow> string \<Rightarrow> 'l \<Rightarrow> run_result \<times> 'l"
  h_os :: "'fs os"
  h_fs :: 'fs
  h_cwd :: string

definition execute_string ::
  "('fs, 'l) host \<Rightarrow> string \<Rightarrow> string \<Rightarrow> kode \<times> 'l \<Rightarrow> ((kode \<times> 'l) \<times> bool \<times> out_line list) option" where
  "execute_string h src fname p =
     (case p of (k, l) \<Rightarrow>
        if h_use_v8 h = Some ''0'' \<or> \<not> available (h_build h)
        then Some (p, ExecuteString (h_use_v8 h) (available (h_build h)) ([], []))
        else (case runScript (h_v8 h) (h_loop h) (h_run h) (h_cwd h) src fname (eng k) l of
                None \<Rightarrow> None
              | Some (e, l', res) \<Rightarrow>
                  Some ((k\<lparr>eng := e\<rparr>, l'), ExecuteString (h_use_v8 h) (available (h_build h)) res)))"

definition execute_file ::
  "('fs, 'l) host \<Rightarrow> string \<Rightarrow> kode \<times> 'l \<Rightarrow> ((kode \<times> 'l) \<times> bool \<times> out_line list) option" where
  "execute_file h f p =
     (case open_in (h_os h) (h_fs h) f of
        None \<Rightarrow> Some (p, ExecuteFile (h_os h) (h_fs h) (\<lambda>src fn. (False, [])) f)
      | Some source \<Rightarrow> execute_string h source f p)"

fun run_sources :: "('fs, 'l) host \<Rightarrow> string list \<Rightarrow> kode \<times> 'l \<Rightarrow> ((kode \<times> 'l) \<times> out_line list) option" where
  "run_sources h [] p = Some (p, [])"
| "run_sources h (s # ss) p =
     (case execute_string h s ''script'' p of
        None \<Rightarrow> None
      | Some (p1, b, out) \<Rightarrow> map_option (\<lambda>(p2, out'). (p2, out @ out')) (run_sources h ss p1))"

fun run_demo ::
  "('fs, 'l) host \<Rightarrow> (out_line list \<times> string list) list \<Rightarrow> kode \<times> 'l \<Rightarrow> ((kode \<times> 'l) \<times> out_line list) option" where
  "run_demo h [] p = Some (p, [])"
| "run_demo h ((heading, srcs) # ds) p =
     (case run_sources h srcs p of
        None \<Rightarrow> None
      | Some (p1, out) \<Rightarrow> map_option (\<lambda>(p2, out'). (p2, heading @ out @ out')) (run_demo h ds p1))"

text \<open>The branches of \<open>main\<close>: the process afterwards, success, and what is printed.\<close>

definition main_body ::
  "('fs, 'l) host \<Rightarrow> string \<Rightarrow> invocation \<Rightarrow> kode \<times> 'l \<Rightarrow> ((kode \<times> 'l) \<times> bool \<times> out_line list) option" where
  "main_body h argv0 i p =
     (if show_demo i then
        map_option (\<lambda>(p1, out). (p1, True, PrintUsage argv0
            @ [Cout [], Cout ''=== Demo Mode - Learning How Node.js Works ===''] @ out))
          (run_demo h demo_steps p)
      else if show_help i then Some (p, True, PrintUsage argv0)
      else if show_version i then Some (p, True, version_lines)
      else if execute_code i then execute_string h (inv_code i) ''command-line'' p
      else if inv_script i \<noteq> [] then execute_file h (inv_script i) p
      else (case unknown_option i of
              Some arg \<Rightarrow> Some (p, False, Cerr (''Unknown option: '' @ arg) # PrintUsage argv0)
            | None \<Rightarrow> Some (p, True, [])))"

text \<open>\<open>RunEventLoop\<close>: \<open>uv_run\<close> in its default mode runs until nothing is active.\<close>

partial_function (option) RunEventLoop :: "'l evloop \<Rightarrow> 'l \<Rightarrow> 'l option" where
  "RunEventLoop ev l = (if loop_alive ev l then RunEventLoop ev (uv_run_once ev l) else Some l)"

definition kode_main ::
  "('fs, 'l) host \<Rightarrow> string \<Rightarrow> string list \<Rightarrow> kode \<times> 'l \<Rightarrow> (nat \<times> out_line list) option" where
  "kode_main h argv0 argv p =
     (case p of (k, l) \<Rightarrow>
        let i = parse_args argv; k1 = SetInvocation argv0 (inv_script i) (inv_args i) k in
        case Initialize (h_v8 h) (h_init h) (h_environ h) (h_hardware h) (h_use_v8 h) (available (h_build h)) k1 of
          (k2, out, False) \<Rightarrow> Some (1, out @ [Cerr ''Failed to initialize runtime''])
        | (k2, out, True) \<Rightarrow>
           (case main_body h argv0 i (k2, l) of
              None \<Rightarrow> None
            | Some ((k3, l3), success, out') \<Rightarrow>
               (case RunEventLoop (h_loop h) l3 of
                  None \<Rightarrow> None
                | Some l4 \<Rightarrow>
                   (case Shutdown (available (h_build h)) k3 of
                      None \<Rightarrow> None
                    | Some k4 \<Rightarrow> Some (if success then 0 else 1, out @ out')))))"

section \<open>Properties\<close>

text \<open>
  The command line is split at the script: options are read only before it, everything after the
  script or after the code of -e goes to the program unchanged.
\<close>

lemma parse_args_script:
  assumes "f \<noteq> []" "hd f \<noteq> CHR ''-''"
  shows "parse_args (f # rest) = no_invocation\<lparr>inv_script := f, inv_args := rest\<rparr>"
  using assms by (cases f) auto

lemma parse_args_code: "parse_args (''-e'' # c # rest)
    = no_invocation\<lparr>inv_code := c, execute_code := True, inv_args := rest\<rparr>"
  by simp

lemma RunEventLoop_ends:
  fixes f :: "'l \<Rightarrow> nat"
  assumes "\<And>x. loop_alive ev x \<Longrightarrow> f (uv_run_once ev x) < f x"
  shows "\<exists>l'. RunEventLoop ev l = Some l' \<and> \<not> loop_alive ev l'"
proof (induction "f l" arbitrary: l rule: less_induct)
  case less
  show ?case
  proof (cases "loop_alive ev l")
    case True
    with less assms have "\<exists>l'. RunEventLoop ev (uv_run_once ev l) = Some l' \<and> \<not> loop_alive ev l'" by blast
    with True show ?thesis by (subst RunEventLoop.simps) simp
  next
    case False
    then show ?thesis by (subst RunEventLoop.simps) simp
  qed
qed

text \<open>
  Finitely much work: every \<open>uv_run\<close> of a live loop, with or without the microtasks after it,
  brings a measure down.
\<close>

definition finite_work :: "'l evloop \<Rightarrow> ('l \<Rightarrow> nat) \<Rightarrow> bool" where
  "finite_work ev f \<longleftrightarrow>
     (\<forall>x. loop_alive ev x \<longrightarrow> f (uv_run_once ev x) < f x \<and> f (loop_round ev x) < f x)"

lemma finite_work_left: "finite_work ev f \<Longrightarrow> work_left ev f"
  by (simp add: finite_work_def work_left_def)

lemma finite_work_drains: "finite_work ev f \<Longrightarrow> \<exists>l'. RunEventLoop ev l = Some l' \<and> \<not> loop_alive ev l'"
  by (rule RunEventLoop_ends [where f = f]) (simp add: finite_work_def)

text \<open>A process whose V8 starts: the engine is ready and the scheduler is idle.\<close>

definition started :: "nat \<Rightarrow> kode \<Rightarrow> bool" where
  "started hw k \<longleftrightarrow> isolate (eng k) \<and> js_context (eng k) \<noteq> None \<and> g_loop (eng k)
     \<and> scheduler (conc k) = Some (start (new_scheduler hw 0))"

lemma initialize_good:
  "\<not> isolate e \<Longrightarrow> \<exists>e'. initialize v good_init environ e = (e', True, []) \<and> isolate e'
     \<and> js_context e' \<noteq> None \<and> g_loop e' = g_loop e"
  by (simp add: initialize_def good_init_def InstallKodeRuntimeBootstrap_def InstallKodeHostApis_def
      InstallKodeTextApi_def InstallTextEncodingGlobals_def initial_global_def bootstrap_kode_def Let_def)

lemma Initialize_started:
  assumes "\<not> isolate (eng k)" "use \<noteq> Some ''0''"
  shows "\<exists>k'. Initialize v good_init environ hw use True k
      = (k', [Cout ''[ModernFS] Next-generation file system initialized''], True) \<and> started hw k'"
proof -
  have "\<not> isolate (setEventLoop True (setRuntimeOptions (invocation_opts k) (eng k)))"
    using assms by (simp add: setEventLoop_def setRuntimeOptions_def)
  from initialize_good [OF this, of v environ] assms show ?thesis
    by (auto simp: Initialize_def rt_initialize_def started_def setEventLoop_def Let_def)
qed

text \<open>Shutdown of a runtime whose scheduler has no task returns.\<close>

lemma idle_shutdown: "scheduler (conc k) = Some (start (new_scheduler hw 0)) \<Longrightarrow> \<exists>k'. Shutdown h k = Some k'"
  by (simp add: Shutdown_def rt_shutdown_def wait_all_returns_def start_def new_scheduler_def setup_preemption_def)

text \<open>Scripts run in a build with V8 that the environment does not switch off.\<close>

definition v8_enabled :: "('fs, 'l) host \<Rightarrow> bool" where
  "v8_enabled h \<longleftrightarrow> available (h_build h) \<and> h_use_v8 h \<noteq> Some ''0''"

lemma kode_main_steps:
  assumes "Initialize (h_v8 h) (h_init h) (h_environ h) (h_hardware h) (h_use_v8 h) (available (h_build h))
      (SetInvocation argv0 (inv_script (parse_args argv)) (inv_args (parse_args argv)) k) = (k2, out, True)"
    and "main_body h argv0 (parse_args argv) (k2, l) = Some ((k3, l3), success, out')"
    and "finite_work (h_loop h) m" "scheduler (conc k3) = Some (start (new_scheduler hw 0))"
  shows "kode_main h argv0 argv (k, l) = Some (if success then 0 else 1, out @ out')"
proof -
  obtain l4 where "RunEventLoop (h_loop h) l3 = Some l4" using finite_work_drains [OF assms(3)] by blast
  moreover obtain k4 where "Shutdown (available (h_build h)) k3 = Some k4" using idle_shutdown [OF assms(4)] by blast
  ultimately show ?thesis using assms(1,2) by (simp add: kode_main_def Let_def)
qed

text \<open>
  A process that runs one script: when the script gives the result \<open>res\<close> (value and error text)
  and leaves the loop in \<open>l2\<close>, the process ends, with the status and the output of
  \<open>ExecuteString\<close>.
\<close>

lemma kode_main_script:
  assumes "\<not> isolate (eng k)" "v8_enabled h" "h_init h = good_init" "f \<noteq> []" "hd f \<noteq> CHR ''-''"
    "open_in (h_os h) (h_fs h) f = Some src" "finite_work (h_loop h) m"
    "\<And>k2. started (h_hardware h) k2 \<Longrightarrow>
       \<exists>e. runScript (h_v8 h) (h_loop h) (h_run h) (h_cwd h) src f (eng k2) l = Some (e, l2, res)"
  shows "kode_main h argv0 (f # args) (k, l)
    = Some (if fst (ExecuteString (h_use_v8 h) True res) then 0 else 1,
            Cout ''[ModernFS] Next-generation file system initialized'' # snd (ExecuteString (h_use_v8 h) True res))"
proof -
  have i: "parse_args (f # args) = no_invocation\<lparr>inv_script := f, inv_args := args\<rparr>"
    by (rule parse_args_script [OF assms(4,5)])
  have v8: "available (h_build h)" "h_use_v8 h \<noteq> Some ''0''" using assms(2) by (simp_all add: v8_enabled_def)
  have "\<not> isolate (eng (SetInvocation argv0 f args k))" using assms(1) by (simp add: SetInvocation_def)
  from Initialize_started [OF this v8(2)] obtain k2 where k2:
    "Initialize (h_v8 h) good_init (h_environ h) (h_hardware h) (h_use_v8 h) True (SetInvocation argv0 f args k)
      = (k2, [Cout ''[ModernFS] Next-generation file system initialized''], True)" "started (h_hardware h) k2" by blast
  from assms(8) [OF k2(2)] obtain e where
    e: "runScript (h_v8 h) (h_loop h) (h_run h) (h_cwd h) src f (eng k2) l = Some (e, l2, res)" by blast
  have b: "main_body h argv0 (parse_args (f # args)) (k2, l)
      = Some ((k2\<lparr>eng := e\<rparr>, l2), fst (ExecuteString (h_use_v8 h) True res), snd (ExecuteString (h_use_v8 h) True res))"
    using e v8 assms(4,6) unfolding i
    by (simp add: main_body_def no_invocation_def execute_file_def execute_string_def)
  show ?thesis
    using kode_main_steps [OF _ b assms(7)] k2 assms(3) v8(1) i
    by (simp add: no_invocation_def started_def del: parse_args.simps)
qed

section \<open>Without V8\<close>

lemma string_without_v8:
  "\<not> v8_enabled h \<Longrightarrow> execute_string h src f p = Some (p, False, [Cerr ''V8 is required for JavaScript execution''])"
  by (cases p) (auto simp: execute_string_def v8_enabled_def ExecuteString_def)

text \<open>Every source of the demo prints the same line; the demo goes on.\<close>

lemma sources_without_v8:
  "\<not> v8_enabled h \<Longrightarrow>
   run_sources h ss p = Some (p, map (\<lambda>s. Cerr ''V8 is required for JavaScript execution'') ss)"
  by (induction ss) (simp_all add: string_without_v8)

lemma demo_without_v8:
  "\<not> v8_enabled h \<Longrightarrow> run_demo h ds p
     = Some (p, concat (map (\<lambda>(heading, srcs). heading @ map (\<lambda>s. Cerr ''V8 is required for JavaScript execution'') srcs) ds))"
  by (induction h ds p rule: run_demo.induct) (simp_all add: sources_without_v8)

lemma file_without_v8:
  "\<not> v8_enabled h \<Longrightarrow> execute_file h f p = Some (p, False,
     [Cerr (if open_in (h_os h) (h_fs h) f = None then ''Cannot open file: '' @ f
            else ''V8 is required for JavaScript execution'')])"
  by (auto simp: execute_file_def ExecuteFile_def string_without_v8 split: option.split)

lemma Initialize_without_v8:
  assumes "\<not> v8_enabled h"
  shows "\<exists>k'. Initialize (h_v8 h) (h_init h) (h_environ h) (h_hardware h) (h_use_v8 h) (available (h_build h)) k
      = (k', [Cout ''[ModernFS] Next-generation file system initialized''], True)
    \<and> scheduler (conc k') = Some (start (new_scheduler (h_hardware h) 0)) \<and> eng k' = eng k"
  using assms by (auto simp: Initialize_def rt_initialize_def v8_enabled_def Let_def)

text \<open>Then \<open>main\<close> is its middle part, whatever the engine is.\<close>

lemma main_without_v8:
  assumes "\<not> v8_enabled h" "finite_work (h_loop h) m"
    and "\<And>p. main_body h argv0 (parse_args argv) p = Some (p, success, out)"
  shows "kode_main h argv0 argv (k, l)
    = Some (if success then 0 else 1, Cout ''[ModernFS] Next-generation file system initialized'' # out)"
proof -
  obtain k2 where "Initialize (h_v8 h) (h_init h) (h_environ h) (h_hardware h) (h_use_v8 h) (available (h_build h))
      (SetInvocation argv0 (inv_script (parse_args argv)) (inv_args (parse_args argv)) k)
    = (k2, [Cout ''[ModernFS] Next-generation file system initialized''], True)"
    "scheduler (conc k2) = Some (start (new_scheduler (h_hardware h) 0))"
    using Initialize_without_v8 [OF assms(1)] by blast
  from kode_main_steps [OF this(1) assms(3) assms(2) this(2)] show ?thesis by simp
qed

end
