(* ===== verification/Spec2Isabelle.thy ===== *)
theory Spec2Isabelle
  imports QueueSpec Logging Scheduler_Live TaskPool Sha256 HttpServer FsCalls ModuleLoader Engine CommandLine
begin

text \<open>
  \<^bold>\<open>Kode: a JavaScript runtime on V8 and libuv.\<close> This library models the C++ sources under \<open>src/src\<close>
  (paths below are relative to it) and proves what makes its parts correct.

  \<^bold>\<open>The program.\<close> \<open>main.cc\<close> reads the command line and drives a \<open>KodeRuntime\<close> (\<open>core/runtime.cc\<close>),
  which owns the event loop, the concurrency runtime and the V8 engine. The engine (\<open>v8/engine.cc\<close>)
  runs a script and waits for its top-level promise; scripts reach the host through \<open>require\<close>
  (\<open>v8/module_loader.cc\<close>), through the modules of \<open>v8/builtins\<close> (path, crypto, encoding, fs) and through the
  \<open>Kode\<close> object (\<open>v8/kode_host.cc\<close>). The fs module works on \<open>filesystem/modern_fs.cc\<close>, which uses
  libuv's thread pool. Tasks, channels and the work-stealing scheduler are in \<open>concurrency/\<close>. A
  line-oriented parser (\<open>parser/\<close>) with an interpreter in \<open>KodeRuntime\<close>, a legacy file system
  (\<open>filesystem/fs.cc\<close>) and an HTTP server (\<open>http/\<close>) are further parts.

  \<^bold>\<open>Theories and sources.\<close>
  \<^item> \<open>Prelude\<close>: runs of labelled step relations with the locales \<open>invariant_system\<close>, \<open>history_system\<close>,
    \<open>draining_system\<close> (work that a measure bounds and that is never stuck) and \<open>simulation\<close>; the \<open>fifo\<close> interface of \<open>std::queue\<close>; \<open>std::string\<close> operations and decimal conversions.
  \<^item> \<open>Channel\<close> (\<open>concurrency/task.h\<close>, \<open>Channel<T>\<close>): one function per critical section, and a step relation
    with the two wait sets, notifications and spurious wake-ups; no lost wake-up, FIFO order, capacity,
    draining after close. \<open>QueueSpec\<close>: the atomic bounded queue that the channel refines.
  \<^item> \<open>Task\<close>, \<open>Scheduler\<close>, \<open>Scheduler_Proofs\<close> (\<open>concurrency/task.h\<close>, \<open>task.cc\<close>): task objects, stacks and contexts;
    worker loops, queues, stealing, cancellation and fibers, every shared access one step; tasks are
    conserved, \<open>wait_all\<close> is sound, \<open>steal_task_fast\<close> returns, one worker never derails, and two runs that
    show what goes wrong with several. \<open>Scheduler_Work\<close>: what a step keeps of the other tasks, and a measure
    of the work that is left in queues, fibers and worker loops. \<open>Scheduler_Live\<close>: without new spawns the
    useful steps are bounded and no worker is stuck, one worker finishes every task, \<open>stop\<close> returns.
    \<open>TaskPool\<close>: the pool of tasks that the scheduler refines.
    \<open>Logging\<close>: the log level and its helpers.
  \<^item> \<open>JSConcurrency\<close> (end of \<open>task.cc\<close>): \<open>ConcurrencyRuntime\<close>, the functions of a spawned script, the named
    channels; the locale \<open>mailbox\<close> is what a client of a channel relies on. \<open>Timeout\<close>: \<open>with_timeout\<close>, the
    registry of cancellable tasks, and the watchdog running beside the scheduler.
  \<^item> \<open>FsPath\<close>, \<open>V8Helpers\<close> (\<open>v8/v8_helpers.cc\<close>, \<open>v8/builtins/path.cc\<close>): \<open>std::filesystem::path\<close> on POSIX, path
    normalisation against a reference by segments, JavaScript values, errors and promises, the path
    module.
  \<^item> \<open>Sha256\<close> (\<open>builtins/crypto.cc\<close>): the loops on 32-bit words against FIPS 180-4, and the origin of the
    tables. \<open>Encoding\<close> (\<open>builtins/encoding.cc\<close>). \<open>FileSystem\<close> (\<open>filesystem/modern_fs.cc\<close>): operations in flight
    as a step relation. \<open>KodeFS\<close> (\<open>filesystem/fs.cc\<close>). \<open>FsModule\<close> (\<open>builtins/fs.cc\<close>): calls and their
    completions; \<open>FsCalls\<close>: calls of the module above the thread pool, each answered once, and all of them
    answered in the end.
  \<^item> \<open>ModuleLoader\<close> (\<open>v8/module_loader.cc\<close>): \<open>require\<close> with cache, store and directory stack; the locale
    \<open>loader_relation\<close> carries relations across mutually loading modules.
  \<^item> \<open>KodeScopes\<close> (\<open>v8/kode_host.cc\<close>, the bootstrap script): scopes and tasks, every reaction of their promise
    chains one step; the counters are exact and come back to zero, a failed scope starts nothing, and a
    scope can finish before its tasks. \<open>KodeHost\<close>: environment, sleep, signals, the \<open>Kode\<close> object.
    \<open>Engine\<close> (\<open>v8/engine.cc\<close>): initialisation, shutdown, scripts and top-level promises.
  \<^item> \<open>Parser\<close> (\<open>parser/parser.cc\<close>), \<open>HttpServer\<close> (\<open>http/http_server.cc\<close>), \<open>Runtime\<close> (\<open>core/runtime.cc\<close> and the
    parser's \<open>ExecuteStatement\<close>), \<open>CommandLine\<close> (\<open>main.cc\<close>); this theory adds the path of a script from the
    command line to the exit status, with V8 and without.

  \<^bold>\<open>Correspondence.\<close> A struct or class is a record, an enumeration a datatype, an exception or early return a
  branch of a sum or option type; lines written to the standard streams are lists of strings (those of the
  info and debug log, which are off by default, and of the context functions are left out); definitions keep the names of the C++ functions. \<open>None\<close> as the result of
  a blocking call means that the caller sleeps. Concurrent parts (channel, scheduler, file operations,
  HTTP connection, fs calls, scopes, watchdog) are labelled step relations, and their theorems hold for all runs.

  \<^bold>\<open>Parameters.\<close> V8, libuv and the operating system are not part of the sources: what the code asks of them is
  an argument (\<open>v8\<close>, \<open>v8_init\<close>, \<open>evloop\<close>, \<open>js_env\<close>, \<open>os\<close>), and what a theorem needs of them is a hypothesis
  with a name: \<open>os_laws\<close> (a file that was written and closed without error can be read back),
  \<open>work_left\<close> and \<open>finite_work\<close> (the event loop has finitely much to do), that V8 decodes a string's UTF-8
  unchanged. What a spawned script does on its worker is a fiber (\<open>script_fiber\<close>). Each is shown to hold for a concrete instance by a witness.

  \<^bold>\<open>Bounds and fuel.\<close> Loading modules takes fuel because modules load each other; more fuel never changes a
  result, on a disk with finitely many readable files enough fuel always gives one (\<open>require_terminates\<close>),
  and the other theorems hold for every amount that gives one. Waiting for a promise and draining
  the event loop are partial functions whose value \<open>None\<close> is a run that never ends; the theorems prove that
  they return. \<open>uint32_t\<close>, \<open>uint64_t\<close> and \<open>size_t\<close> values are words where they can wrap (SHA-256, the task counter,
  timer delays, channel capacities of the runtime), the rest are natural numbers or integers.

  \<^bold>\<open>Not modelled.\<close> The vendored headers of V8 and libuv, tests, examples, build files and documents; the JavaScript
  semantics, of which only the calls into the host and the promise states appear; allocation
  failures; memory release other than where it is observable (HTTP handles, file operations);
  declarations of \<open>parser.h\<close> and \<open>modern_fs.h\<close> that have no definition; the bodies of the stubs of a build
  without V8, which the runtime never calls: it asks \<open>available\<close> first.
\<close>

section \<open>A script from the command line to its exit status\<close>

lemma normalize_nonempty: "f \<noteq> [] \<Longrightarrow> \<exists>p. NormalizePath cwd f = Some p"
  by (simp add: NormalizePath_def absolute_def)

lemma runScript_promise:
  assumes "isolate e" "js_context e \<noteq> None" "f \<noteq> []" "length (c_str src) \<le> max_length v" "g_loop e"
    "\<And>n. compile_run (c_str src) n l = (RunPromise, l1)" "wait_promise ev True l1 = Some l2"
  shows "\<exists>e'. runScript v ev compile_run cwd src f e l = Some (e', l2, promise_outcome v (promise_of ev l2))"
proof -
  obtain p where "NormalizePath cwd f = Some p" using normalize_nonempty [OF assms(3)] by blast
  with assms show ?thesis
    by (simp add: runScript_def SetModuleEntryDirectory_def ResolveTopLevelPromise_def)
qed

lemma runScript_failed:
  assumes "isolate e" "js_context e \<noteq> None" "NormalizePath cwd f = Some p" "length (c_str src) \<le> max_length v"
    "compile_run (c_str src) p l = (RunFailed msg exn, l1)"
  shows "\<exists>e'. runScript v ev compile_run cwd src f e l = Some (e', l1, [], FormatTryCatch msg exn p)"
  using assms by (simp add: runScript_def SetModuleEntryDirectory_def)

lemma ExecuteString_promise:
  "use \<noteq> Some ''0'' \<Longrightarrow> fst (ExecuteString use True (promise_outcome v p)) \<longleftrightarrow> (case p of Rejected r \<Rightarrow> False | _ \<Rightarrow> True)"
  by (auto simp: ExecuteString_def promise_outcome_def Let_def split: promise.splits)

lemma v8_use: "v8_enabled h \<Longrightarrow> h_use_v8 h \<noteq> Some ''0''"
  by (simp add: v8_enabled_def)

lemma FormatTryCatch_nonempty: "FormatTryCatch msg exn f \<noteq> []"
  by (simp add: FormatTryCatch_def Let_def)

text \<open>
  C7. The exit status of kode script.js tells whether the script's top-level promise was rejected:
  for a readable script, on a process whose V8 starts and whose event loop has finitely much work,
  main returns after initialisation, the script, the draining of the event loop and the shutdown,
  with status 1 exactly when the promise was rejected. A promise that never settles ends with 0.
\<close>
theorem script_exit_status:
  assumes "\<not> isolate (eng k)" "v8_enabled h" "h_init h = good_init" "f \<noteq> []" "hd f \<noteq> CHR ''-''"
    "open_in (h_os h) (h_fs h) f = Some src" "length (c_str src) \<le> max_length (h_v8 h)"
    "\<And>n. h_run h (c_str src) n l = (RunPromise, l1)" "finite_work (h_loop h) m"
  shows "\<exists>l2 out. wait_promise (h_loop h) True l1 = Some l2
    \<and> kode_main h argv0 (f # args) (k, l) = Some (case promise_of (h_loop h) l2 of Rejected r \<Rightarrow> 1 | _ \<Rightarrow> 0, out)"
proof -
  obtain l2 where l2: "wait_promise (h_loop h) True l1 = Some l2"
    using wait_promise_ends [of "h_loop h" m True l1] finite_work_left [OF assms(9)] by (auto simp: work_left_def)
  let ?res = "promise_outcome (h_v8 h) (promise_of (h_loop h) l2)"
  have "kode_main h argv0 (f # args) (k, l)
    = Some (if fst (ExecuteString (h_use_v8 h) True ?res) then 0 else 1,
            Cout ''[ModernFS] Next-generation file system initialized'' # snd (ExecuteString (h_use_v8 h) True ?res))"
    by (rule kode_main_script [OF assms(1-6,9)])
       (auto simp: started_def intro!: runScript_promise assms l2)
  with l2 ExecuteString_promise [OF v8_use [OF assms(2)], of "h_v8 h" "promise_of (h_loop h) l2"] show ?thesis
    by (auto split: promise.splits)
qed

definition demo_host :: "(string \<rightharpoonup> string, nat) host" where
  "demo_host = \<lparr> h_build = WithV8, h_v8 = plain_v8, h_init = good_init, h_environ = [], h_hardware = 2, h_use_v8 = None,
     h_loop = count_loop, h_run = (\<lambda>src n l. (RunPromise, 3)), h_os = mem_os,
     h_fs = Map.empty(''a.js'' \<mapsto> ''x''), h_cwd = ''/'' \<rparr>"

definition demo_kode :: kode where
  "demo_kode = \<lparr> invocation_opts = \<lparr> executable = [], script = [], user_args = [] \<rparr>,
     conc = \<lparr> scheduler = None \<rparr>, eng = new_engine \<rparr>"

lemma count_loop_work: "finite_work count_loop (\<lambda>n. n)"
  by (simp add: finite_work_def loop_round_def count_loop_def)

lemmas demo_defs = v8_enabled_def demo_host_def demo_kode_def new_engine_def mem_os_def plain_v8_def c_str_def char_of_nul

theorem script_exit_status_witness:
  "\<exists>l2 out. wait_promise count_loop True 3 = Some l2
     \<and> kode_main demo_host ''kode'' [''a.js'', ''-v''] (demo_kode, 0)
       = Some (case promise_of count_loop l2 of Rejected r \<Rightarrow> 1 | _ \<Rightarrow> 0, out)"
proof -
  have w: "finite_work (h_loop demo_host) (\<lambda>n. n)" using count_loop_work by (simp add: demo_host_def)
  have "\<exists>l2 out. wait_promise (h_loop demo_host) True 3 = Some l2
     \<and> kode_main demo_host ''kode'' (''a.js'' # [''-v'']) (demo_kode, 0)
       = Some (case promise_of (h_loop demo_host) l2 of Rejected r \<Rightarrow> 1 | _ \<Rightarrow> 0, out)"
    by (rule script_exit_status [where src = "''x''", OF _ _ _ _ _ _ _ _ w]) (simp_all add: demo_defs)
  then show ?thesis by (simp add: demo_host_def)
qed





end
